theory Spec2Isabelle
  imports Complex_Main
begin

section \<open>Python and NumPy primitives used by the sources\<close>

text \<open>
  Python ints are modelled by \<open>int\<close>, a one-dimensional array by a list and a
  two-dimensional array by the list of its rows. A finite Python float or NumPy float64
  is modelled by the real number it denotes. Where a claim depends on the rounding of
  float arithmetic (the step data of a scan), every float operation is written as
  \<open>fl\<close> applied to its exact result, where the parameter \<open>fl\<close> stands for rounding to
  float64; the theorems about it hold for every \<open>fl\<close>. The derivative series of the
  approach is modelled with exact arithmetic: what is proved about it does not depend
  on the values. Every exception a modelled call can raise is a value of \<open>py_error\<close>.
\<close>

datatype py_error = IndexError | ValueError | ZeroDivisionError | MemoryError | DeviceError

text \<open>
  Subscripting \<open>xs[i]\<close>: positions \<open>0 .. len-1\<close> are read directly, positions
  \<open>-len .. -1\<close> are read relative to the end, any other position raises IndexError.
\<close>

definition py_index :: "'a list \<Rightarrow> int \<Rightarrow> py_error + 'a" where
  "py_index xs i =
     (if 0 \<le> i \<and> i < int (length xs) then Inr (xs ! nat i)
      else if i < 0 \<and> - int (length xs) \<le> i then Inr (xs ! nat (int (length xs) + i))
      else Inl IndexError)"

text \<open>
  Python's slice \<open>xs[lo:hi]\<close>: negative bounds count from the end, and both bounds are
  clamped to the length, so a slice never raises.
\<close>

definition py_clamp :: "nat \<Rightarrow> int \<Rightarrow> nat" where
  "py_clamp n i = (if i < 0 then nat (max 0 (int n + i)) else min n (nat i))"

definition py_slice :: "'a list \<Rightarrow> int \<Rightarrow> int \<Rightarrow> 'a list" where
  "py_slice xs lo hi =
     (let a = py_clamp (length xs) lo; b = py_clamp (length xs) hi
      in take (b - a) (drop a xs))"

text \<open>
  Conversion of a float to an integer count (a C cast): towards zero. The cast is
  defined for values within the range of a 64-bit integer only, which the theorems
  assume where they speak of a count.
\<close>

definition py_int :: "real \<Rightarrow> int" where
  "py_int x = (if 0 \<le> x then \<lfloor>x\<rfloor> else \<lceil>x\<rceil>)"

text \<open>
  The time stamps of the approach use \<open>numpy.linspace\<close> on small whole numbers; there
  the grid is taken with exact arithmetic: \<open>arange(num) * step + start\<close> with
  \<open>step = (stop - start) / (num - 1)\<close>, the last entry overwritten by \<open>stop\<close> when
  \<open>num > 1\<close>.
\<close>

definition linspace_vals :: "real \<Rightarrow> real \<Rightarrow> nat \<Rightarrow> real list" where
  "linspace_vals start stop num =
     (let dv = int num - 1;
          delta = stop - start;
          y = map real [0..<num];
          y1 = (if 0 < dv then map (\<lambda>v. v * (delta / real_of_int dv)) y
                else map (\<lambda>v. v * delta) y);
          y2 = map (\<lambda>v. v + start) y1
      in if 1 < num then y2[num - 1 := stop] else y2)"

text \<open>
  \<open>numpy.linspace(start, stop, num)\<close> in float64, operation by operation as the library
  computes it for scalar bounds and the default \<open>endpoint=True\<close>:
  \<^verbatim>\<open>
  div = num - 1
  delta = stop - start
  y = arange(0, num)
  if div > 0:
      step = delta / div
      if step == 0:
          y = y / div
          y = y * delta
      else:
          y = y * step
  else:
      y = y * delta
  y += start
  if num > 1:
      y[-1] = stop
  \<close>
  A negative \<open>num\<close> raises ValueError. \<open>mem n\<close> tells whether an array of \<open>n\<close> entries can
  be allocated; when it cannot, the call raises MemoryError.
\<close>

definition linspace_fl :: "(real \<Rightarrow> real) \<Rightarrow> real \<Rightarrow> real \<Rightarrow> nat \<Rightarrow> real list" where
  "linspace_fl fl start stop num =
     (let dv = int num - 1;
          delta = fl (stop - start);
          y = map real [0..<num];
          y1 = (if 0 < dv
                then (let step = fl (delta / real_of_int dv)
                      in if step = 0
                         then map (\<lambda>v. fl (fl (v / real_of_int dv) * delta)) y
                         else map (\<lambda>v. fl (v * step)) y)
                else map (\<lambda>v. fl (v * delta)) y);
          y2 = map (\<lambda>v. fl (v + start)) y1
      in if 1 < num then y2[num - 1 := stop] else y2)"

definition np_linspace ::
  "(real \<Rightarrow> real) \<Rightarrow> (nat \<Rightarrow> bool) \<Rightarrow> real \<Rightarrow> real \<Rightarrow> int \<Rightarrow> py_error + real list" where
  "np_linspace fl mem start stop num =
     (if num < 0 then Inl ValueError
      else if mem (nat num) then Inr (linspace_fl fl start stop (nat num))
      else Inl MemoryError)"

text \<open>
  \<open>numpy.repeat(a, repeats)\<close> with a scalar count: the count is converted to an integer
  (a float is truncated); the length of the result is the count times the length of
  \<open>a\<close>, and a negative length raises ValueError; otherwise each entry of \<open>a\<close> is
  repeated that many times in place.
\<close>

definition np_repeat :: "(nat \<Rightarrow> bool) \<Rightarrow> 'a list \<Rightarrow> real \<Rightarrow> py_error + 'a list" where
  "np_repeat mem a repeats =
     (let n = py_int repeats; total = n * int (length a)
      in if total < 0 then Inl ValueError
         else if mem (nat total) then Inr (concat (map (replicate (nat n)) a))
         else Inl MemoryError)"




section \<open>utils.stepData\<close>

text \<open>
  \<^verbatim>\<open>
  def stepData(lowervx, uppervx, xsteps, lowervy, uppervy, ysteps, settle, data_rate):
      linx = np.repeat(np.linspace(lowervx, uppervx, xsteps), settle * data_rate)
      linx = np.concatenate((linx, np.flip(linx)))
      liny = np.linspace(lowervy, uppervy, ysteps)
      return [linx, liny]
  \<close>
\<close>

text \<open>
  The product \<open>settle * data_rate\<close> is a float product; \<open>np.flip\<close> is a view and
  \<open>np.concatenate\<close> allocates the doubled row.
\<close>

definition stepData ::
  "(real \<Rightarrow> real) \<Rightarrow> (nat \<Rightarrow> bool) \<Rightarrow> real \<Rightarrow> real \<Rightarrow> int \<Rightarrow> real \<Rightarrow> real \<Rightarrow> int \<Rightarrow> real \<Rightarrow> real
     \<Rightarrow> py_error + (real list \<times> real list)" where
  "stepData fl mem lowervx uppervx xsteps lowervy uppervy ysteps settle data_rate =
     (case np_linspace fl mem lowervx uppervx xsteps of
        Inl e \<Rightarrow> Inl e
      | Inr lx \<Rightarrow>
         (case np_repeat mem lx (fl (settle * data_rate)) of
            Inl e \<Rightarrow> Inl e
          | Inr linx \<Rightarrow>
             if mem (2 * length linx)
             then (case np_linspace fl mem lowervy uppervy ysteps of
                     Inl e \<Rightarrow> Inl e
                   | Inr liny \<Rightarrow> Inr (linx @ rev linx, liny))
             else Inl MemoryError))"

section \<open>Modules.scanUI: scan variables, acquisition buffer, line scan thread\<close>

text \<open>
  \<open>scanVars\<close> keeps the fields the scan logic reads; file and group names, used only to
  label the log file, are left out. \<open>log_on\<close> is the source's \<open>log\<close>.
\<close>

record scanVars =
  lowervx :: real
  uppervx :: real
  lowervy :: real
  uppervy :: real
  xsteps :: int
  ysteps :: int
  settle :: real
  data_rate :: real
  log_on :: bool
  lowerV :: real
  upperV :: real
  linx :: "real list"
  liny :: "real list"

text \<open>\<open>scanVars.stepdata\<close>: stores the two sequences of \<open>stepData\<close> in the object.\<close>

definition stepdata ::
  "(real \<Rightarrow> real) \<Rightarrow> (nat \<Rightarrow> bool) \<Rightarrow> scanVars \<Rightarrow> py_error + scanVars" where
  "stepdata fl mem v =
     (case stepData fl mem (lowervx v) (uppervx v) (xsteps v) (lowervy v) (uppervy v)
             (ysteps v) (settle v) (data_rate v) of
        Inl e \<Rightarrow> Inl e
      | Inr (lx, ly) \<Rightarrow> Inr (v\<lparr>linx := lx, liny := ly\<rparr>))"

text \<open>
  \<open>scanUI.__snapshot\<close> and \<open>scanVars.set_all\<close> overwrite the region, timing and logging
  fields of the object with the values of the widgets or of the program entry; the
  voltage limits and the sequences of the previous scan stay.
\<close>

definition set_region :: "scanVars \<Rightarrow> scanVars \<Rightarrow> scanVars" where
  "set_region vals v =
     v\<lparr>lowervx := lowervx vals, uppervx := uppervx vals, lowervy := lowervy vals,
       uppervy := uppervy vals, xsteps := xsteps vals, ysteps := ysteps vals,
       settle := settle vals, data_rate := data_rate vals, log_on := log_on vals\<rparr>"

text \<open>
  Calls made on the DAQ driver, in program order. A task is named by its task name
  (\<open>''read''\<close>, \<open>''write''\<close>).
\<close>

datatype daq_event =
    MakeReadTask string "string list"
  | MakeWriteTask string "string list" real real
  | CfgSampClkContinuous string real
  | CfgSampClkFinite string real int
  | Commit string
  | ConfigureLogging string
  | CfgDigEdgeStartTrig string string
  | MakeMultiChannelWriter string
  | WriteManySample "real list list"
  | WriteSample "real list"
  | IsTaskDone string
  | TaskStart string
  | TaskClose string

text \<open>
  The state of a \<open>scanUI\<close> window together with its \<open>ScanLineThread\<close>. \<open>scan_data\<close> is
  \<open>self.data\<close> (channels by time, one list per channel), \<open>scan_read_task\<close> is
  \<open>self.read_task\<close> (\<open>None\<close> while the attribute does not exist), \<open>line_i\<close> is the thread's
  \<open>self.i\<close>. \<open>calls\<close> collects the driver calls and \<open>raised\<close> holds the exception that
  ended the current activity, if any.
\<close>

record scan_win =
  sv :: scanVars
  scan_data :: "real list list"
  meas_list :: "string list"
  write_list :: "string list"
  DEVname :: string
  scan_read_task :: "string option"
  line_scan_running :: bool
  graph_timer_active :: bool
  write_timer_active :: bool
  wait_timer_active :: bool
  line_i :: int
  done_flag :: bool
  calls :: "daq_event list"
  raised :: "py_error option"

text \<open>\<open>np.shape(a)[1]\<close> of a channels-by-time array.\<close>

definition ncols :: "'a list list \<Rightarrow> nat" where
  "ncols a = (case a of [] \<Rightarrow> 0 | r # _ \<Rightarrow> length r)"

text \<open>
  \<^verbatim>\<open>
  def dumpData(self, chunk=0):
      if chunk == 0:
          self.data = np.empty((len(self.meas_list), 0))
      else:
          temp = self.data[:, 0:chunk]
          self.data = self.data[:, chunk:np.shape(self.data)[1]]
          return temp
  \<close>
  The result is the returned value (\<open>None\<close> when the function falls off its end) and the
  updated window.
\<close>

definition dumpData :: "scan_win \<Rightarrow> int \<Rightarrow> real list list option \<times> scan_win" where
  "dumpData w chunk =
     (if chunk = 0
      then (None, w\<lparr>scan_data := replicate (length (meas_list w)) []\<rparr>)
      else (Some (map (\<lambda>row. py_slice row 0 chunk) (scan_data w)),
            w\<lparr>scan_data :=
                map (\<lambda>row. py_slice row chunk (int (ncols (scan_data w)))) (scan_data w)\<rparr>))"

text \<open>
  A driver call: skipped once an exception is pending; raises \<open>DeviceError\<close> when the
  hardware fails at this call (\<open>faults\<close> is the set of failing call positions);
  otherwise the call is recorded.
\<close>

definition hw :: "(nat \<Rightarrow> bool) \<Rightarrow> daq_event \<Rightarrow> scan_win \<Rightarrow> scan_win" where
  "hw faults ev w =
     (if raised w \<noteq> None then w
      else if faults (length (calls w)) then w\<lparr>raised := Some DeviceError\<rparr>
      else w\<lparr>calls := calls w @ [ev]\<rparr>)"

definition raise_in :: "py_error \<Rightarrow> scan_win \<Rightarrow> scan_win" where
  "raise_in e w = (if raised w \<noteq> None then w else w\<lparr>raised := Some e\<rparr>)"

text \<open>
  \<open>scanUI.__startLineScan\<close>, with the values read by \<open>__snapshot\<close> (or taken from the
  program file by \<open>set_all\<close>) passed as \<open>vals\<close>:
  \<^verbatim>\<open>
  if not self.line_scan.isRunning():
      ... self.__snapshot() or self.sv.set_all(**self.program[self.program_i]) ...
      self.sv.stepdata()
      self.read_task = self.daq.make_read_task('read', self.meas_list)
      NIpci6036E.set_continuous_hardware_clock(self.read_task, self.sv.data_rate)
      NIpci6036E.commit(self.read_task)
      if self.sv.log:
          NIpci6036E.set_log(self.read_task, ...)
      self.line_scan.start()
      self.graph_timer.start()
  \<close>
  The step data is computed before the read task is made; an exception of \<open>stepdata\<close>
  leaves the function at that point. \<open>self.read_task\<close> is assigned only when
  \<open>make_read_task\<close> has returned.
\<close>

definition startLineScan ::
  "(real \<Rightarrow> real) \<Rightarrow> (nat \<Rightarrow> bool) \<Rightarrow> (nat \<Rightarrow> bool) \<Rightarrow> scanVars \<Rightarrow> scan_win \<Rightarrow> scan_win" where
  "startLineScan fl mem faults vals w =
     (if line_scan_running w then w
      else
        (let w0 = w\<lparr>sv := set_region vals (sv w)\<rparr>
         in case stepdata fl mem (sv w0) of
              Inl e \<Rightarrow> raise_in e w0
            | Inr v \<Rightarrow>
               (let w1 = hw faults (MakeReadTask ''read'' (meas_list w0)) (w0\<lparr>sv := v\<rparr>);
                    w2 = (if raised w1 = None then w1\<lparr>scan_read_task := Some ''read''\<rparr>
                          else w1);
                    w3 = hw faults (CfgSampClkContinuous ''read'' (data_rate v)) w2;
                    w4 = hw faults (Commit ''read'') w3;
                    w5 = (if log_on v then hw faults (ConfigureLogging ''read'') w4 else w4)
                in if raised w5 \<noteq> None then w5
                   else w5\<lparr>line_scan_running := True, graph_timer_active := True\<rparr>)))"

text \<open>
  \<^verbatim>\<open>
  def __generateInput(xdata, ydata, i):
      return np.vstack((np.ones((len(xdata))) * ydata[i], xdata))
  \<close>
\<close>

definition generateInput :: "real list \<Rightarrow> real list \<Rightarrow> int \<Rightarrow> py_error + real list list" where
  "generateInput xdata ydata i =
     (case py_index ydata i of
        Inl e \<Rightarrow> Inl e
      | Inr y \<Rightarrow> Inr [map (\<lambda>v. v * y) (replicate (length xdata) 1), xdata])"

text \<open>\<open>NIpci6036E.set_start_trigger\<close>: the trigger terminal of the origin task's device.\<close>

definition start_trigger_source :: "scan_win \<Rightarrow> py_error + string" where
  "start_trigger_source w =
     (if meas_list w = [] then Inl IndexError
      else Inr (''/'' @ DEVname w @ ''/ai/StartTrigger''))"

text \<open>
  The body of the \<open>with\<close> block of \<open>ScanLineThread.run\<close> up to the point where the
  event loop is entered.
\<close>

definition run_setup :: "(nat \<Rightarrow> bool) \<Rightarrow> scan_win \<Rightarrow> scan_win" where
  "run_setup faults w1 =
     (let v = sv w1;
          w2 = hw faults (CfgSampClkFinite ''write'' (data_rate v)
                 (int (length (linx v)) * int (length (liny v)) + 1)) w1;
          w3 = (case start_trigger_source w2 of
                  Inl e \<Rightarrow> raise_in e w2
                | Inr src \<Rightarrow> hw faults (CfgDigEdgeStartTrig ''write'' src) w2);
          w4 = hw faults (MakeMultiChannelWriter ''write'') w3;
          w5 = (case generateInput (linx v) (liny v) 0 of
                  Inl e \<Rightarrow> raise_in e w4
                | Inr a \<Rightarrow>
                   (case generateInput (linx v) (liny v) 1 of
                      Inl e \<Rightarrow> raise_in e w4
                    | Inr b \<Rightarrow> hw faults (WriteManySample (map2 (@) a b)) w4));
          w6 = hw faults (TaskStart ''write'') w5;
          w7 = hw faults (TaskStart ''read'') w6
      in if raised w7 \<noteq> None then w7
         else w7\<lparr>wait_timer_active := True, line_i := 2, write_timer_active := True\<rparr>)"

text \<open>The two timer callbacks of the thread's event loop.\<close>

datatype loop_event = WriteTimeout | WaitTimeout bool

text \<open>
  \<open>__write\<close> and \<open>__waitWriting\<close>; the flag of \<open>WaitTimeout\<close> is what \<open>is_task_done\<close>
  answers. The result tells whether \<open>quit\<close> was called.
\<close>

definition write_cb :: "(nat \<Rightarrow> bool) \<Rightarrow> scan_win \<Rightarrow> scan_win" where
  "write_cb faults w =
     (if line_i w = int (length (liny (sv w)))
      then hw faults (WriteSample [0, 0]) (w\<lparr>write_timer_active := False\<rparr>)
      else
        (case generateInput (linx (sv w)) (liny (sv w)) (line_i w) of
           Inl e \<Rightarrow> raise_in e w
         | Inr a \<Rightarrow>
            (let w1 = hw faults (WriteManySample a) w
             in if raised w1 \<noteq> None then w1 else w1\<lparr>line_i := line_i w1 + 1\<rparr>)))"

fun event_loop :: "(nat \<Rightarrow> bool) \<Rightarrow> loop_event list \<Rightarrow> scan_win \<Rightarrow> scan_win" where
  "event_loop faults [] w = w"
| "event_loop faults (WriteTimeout # es) w =
     (if raised w \<noteq> None then w
      else if write_timer_active w then event_loop faults es (write_cb faults w)
      else event_loop faults es w)"
| "event_loop faults (WaitTimeout fin # es) w =
     (if raised w \<noteq> None then w
      else
        (let w1 = hw faults (IsTaskDone ''write'') w
         in if raised w1 \<noteq> None then w1
            else if fin then w1\<lparr>done_flag := True\<rparr>
            else event_loop faults es w1))"

text \<open>
  \<open>ScanLineThread.run\<close>: the buffer is emptied, the write task is made, and inside the
  \<open>with\<close> block the setup runs, followed by the event loop driven by the timer events
  \<open>es\<close>. Leaving the \<open>with\<close> block closes the write task, also when an exception is
  pending.
\<close>

definition run :: "(nat \<Rightarrow> bool) \<Rightarrow> loop_event list \<Rightarrow> scan_win \<Rightarrow> scan_win" where
  "run faults es w =
     (let w0 = snd (dumpData w 0);
          w1 = hw faults
                 (MakeWriteTask ''write'' (write_list w0) (lowerV (sv w0)) (upperV (sv w0))) w0
      in if raised w1 \<noteq> None then w1
         else
           (let w2 = run_setup faults w1;
                w3 = (if raised w2 \<noteq> None then w2 else event_loop faults es w2)
            in w3\<lparr>calls := calls w3 @ [TaskClose ''write'']\<rparr>))"

section \<open>Modules.approachUI: approach window and approach thread\<close>

record approachVars =
  threshold :: "real list"
  stepcounts :: "int list"
  approach_stages :: int
  voltages :: "int list"
  frequencies :: "int list"
  rate :: real
  consec_req :: int

text \<open>The widget values \<open>__snapshot\<close> reads.\<close>

record approach_widgets =
  stagebox :: bool
  threshold1box :: real
  threshold2box :: real
  step1box :: int
  step2box :: int
  volt1box :: int
  volt2box :: int
  freq1box :: int
  freq2box :: int
  ratebox :: real
  consecbox :: int

definition snapshot :: "approach_widgets \<Rightarrow> approachVars" where
  "snapshot g =
     (if stagebox g
      then \<lparr>threshold = [threshold1box g, threshold2box g],
            stepcounts = [step1box g, step2box g],
            approach_stages = 2,
            voltages = [volt1box g, volt2box g],
            frequencies = [freq1box g, freq2box g],
            rate = ratebox g, consec_req = consecbox g\<rparr>
      else \<lparr>threshold = [threshold1box g],
            stepcounts = [step1box g],
            approach_stages = 1,
            voltages = [volt1box g],
            frequencies = [freq1box g],
            rate = ratebox g, consec_req = consecbox g\<rparr>)"

text \<open>
  What the approach code does to the outside, in program order: commands to the ANC150
  stepper, the lock-in, the DAQ read task, the data timer and the approach thread.
  Serial communication with the stepper is taken to succeed; the argument checks of
  the ANC150 driver are modelled and raise \<open>ValueError\<close>.
\<close>

datatype effect =
    ThreadTerminate
  | ThreadStart
  | AncWriteMode int string
  | AncWriteVolt int int
  | AncWriteFreq int int
  | AncStopAxis int
  | AncStepUpContinuous int
  | AncStepDown int int
  | Sleep real
  | SrWriteOffset
  | ReadTaskMake
  | ReadTaskClock real
  | ReadTaskStart
  | ReadTaskClose
  | DataTimerStart
  | DataTimerStop

text \<open>The label \<open>doc\<close>: a fixed text, or a format string with the number put into it.\<close>

datatype doc_text = Doc string | DocFmt string int

text \<open>
  \<open>hasattr(win, 'read_task')\<close> and the task's handle: no attribute, an open task, or a
  closed one (\<open>close_task\<close> returns at once on a closed task).
\<close>

datatype task_handle = NoTask | TaskOpen | TaskClosed

text \<open>
  Where the approach thread stands inside \<open>ApproachThread.run\<close>: before the backoff,
  before \<open>__nextStage\<close>, before the stabilisation sleep, before \<open>self.win.consec = 0\<close>,
  before \<open>__writeSteps('c')\<close>.
\<close>

datatype run_pc = AtBackoff | AtNextStage | AtSleep | AtConsecReset | AtWriteSteps

text \<open>
  The approach window with its thread: \<open>data\<close> is \<open>self.data\<close> (row 0 the time stamps,
  row 1 the values), \<open>thread\<close> is \<open>None\<close> when the thread is not running, \<open>anc_freq\<close> is
  the frequency the driver remembers for axis \<open>anc_z\<close>.
\<close>

record approach_win =
  av :: approachVars
  anc_z :: int
  data :: "real list \<times> real list"
  der_arr :: "real list"
  consec :: int
  stage :: int
  steps :: int
  anc_freq :: "int option"
  read_task :: task_handle
  timer_active :: bool
  thread :: "run_pc option"
  doc :: doc_text
  startButton :: bool
  effects :: "effect list"

definition emit :: "effect \<Rightarrow> approach_win \<Rightarrow> approach_win" where
  "emit e w = w\<lparr>effects := effects w @ [e]\<rparr>"

text \<open>The argument checks of the ANC150 driver.\<close>

definition is_axis :: "int \<Rightarrow> bool" where
  "is_axis a = (a = 1 \<or> a = 2 \<or> a = 3)"

definition is_step :: "int \<Rightarrow> bool" where
  "is_step n = (0 < n)"

definition is_freq :: "int \<Rightarrow> bool" where
  "is_freq f = (0 \<le> f \<and> f \<le> 8000)"

definition is_volt :: "int \<Rightarrow> bool" where
  "is_volt v = (0 \<le> v \<and> v \<le> 70)"

text \<open>
  \<^verbatim>\<open>
  def __acquireData(self):
      data_n = NIpci6036E.read_available(self.read_task)
      der_arr_n = np.zeros((len(data_n)))
      if np.size(self.data) == 0:
          time_n = np.linspace(0, len(data_n)-1, len(data_n)) * (0.2 / self.av.rate)
      else:
          time_n = np.linspace(1, len(data_n), len(data_n)) * (0.2 / self.av.rate) + self.data[0, -1]
          der_arr_n[0] = (data_n[0] - self.data[1, -1]) / (time_n[0] - self.data[0, -1])
      self.data = np.append(self.data, np.vstack((time_n, data_n)), 1)
      for i in range(-1, -np.size(der_arr_n), -1):
          der_arr_n[i] = (data_n[i] - data_n[i-1]) / (time_n[i] - time_n[i-1])
      self.der_arr = np.append(self.der_arr, der_arr_n)
  \<close>
  \<open>data_n\<close> is what the read task returns. The loop runs over the indices
  \<open>n-1, n-2, ..., 1\<close> of the new chunk; index \<open>0\<close> is written only in the \<open>else\<close>
  branch.
\<close>

definition acquireData :: "approach_win \<Rightarrow> real list \<Rightarrow> py_error + approach_win" where
  "acquireData w data_n =
     (let n = length data_n; der_arr_n = replicate n (0::real)
      in if rate (av w) = 0 then Inl ZeroDivisionError
         else
           (let dt = (2 / 10) / rate (av w)
            in case
                 (if length (fst (data w)) + length (snd (data w)) = 0
                  then Inr (map (\<lambda>t. t * dt) (linspace_vals 0 (real n - 1) n), der_arr_n)
                  else if data_n = [] then Inl IndexError
                  else
                    (let t_last = last (fst (data w));
                         time_n = map (\<lambda>t. t * dt + t_last) (linspace_vals 1 (real n) n)
                     in Inr (time_n,
                          der_arr_n[0 := (data_n ! 0 - last (snd (data w)))
                                          / (time_n ! 0 - t_last)]))) of
                 Inl e \<Rightarrow> Inl e
               | Inr (time_n, der1) \<Rightarrow>
                   Inr (w\<lparr>data := (fst (data w) @ time_n, snd (data w) @ data_n),
                          der_arr := der_arr w @
                            foldl (\<lambda>d j. d[j := (data_n ! j - data_n ! (j - 1))
                                                 / (time_n ! j - time_n ! (j - 1))])
                              der1 (rev [1..<n])\<rparr>)))"

text \<open>
  \<^verbatim>\<open>
  def endApproachStage(self, end_all=False):
      self.terminate()
      self.anc.stop_axis(self.z)
      if (self.stage + 1) < self.av.approach_stages and not end_all:
          self.start()
      else:
          self.win.data_timer.stop()
          if hasattr(self.win, 'read_task'):
              NIpci6036E.close_task(self.win.read_task)
          if end_all:
              self.win.doc.setText('Approach stopped')
          else:
              self.win.doc.setText('Approach complete')
          self.win.startButton.setEnabled(True)
          self.win.parent.enableTabs()
  \<close>
  \<open>terminate\<close> ends the thread at once; \<open>start\<close> begins \<open>run\<close> anew.
\<close>

definition endApproachStage :: "approach_win \<Rightarrow> bool \<Rightarrow> py_error + approach_win" where
  "endApproachStage w end_all =
     (let w1 = emit ThreadTerminate (w\<lparr>thread := None\<rparr>)
      in if is_axis (anc_z w1)
         then
           (let w2 = emit (AncStopAxis (anc_z w1)) w1
            in if stage w2 + 1 < approach_stages (av w2) \<and> \<not> end_all
               then Inr (emit ThreadStart (w2\<lparr>thread := Some AtBackoff\<rparr>))
               else
                 (let w3 = emit DataTimerStop (w2\<lparr>timer_active := False\<rparr>);
                      w4 = (if read_task w3 = TaskOpen
                            then emit ReadTaskClose (w3\<lparr>read_task := TaskClosed\<rparr>)
                            else w3);
                      w5 = w4\<lparr>doc := (if end_all then Doc ''Approach stopped''
                                        else Doc ''Approach complete'')\<rparr>
                  in Inr (w5\<lparr>startButton := True\<rparr>)))
         else Inl ValueError)"

text \<open>
  \<^verbatim>\<open>
  def __checkThreshold(self):
      if self.der_arr[-1] < self.av.threshold[self.approach.stage]:
          self.consec += 1
          if self.consec == self.av.consec_req:
              self.approach.endApproachStage()
      else:
          self.consec = 0

  def __dataLoop(self):
      self.__updateApproachPlots()
      if self.consec != self.av.consec_req:
          self.__checkThreshold()
  \<close>
  \<open>__updateApproachPlots\<close> is \<open>__acquireData\<close> followed by the redrawing of the curves.
\<close>

definition checkThreshold :: "approach_win \<Rightarrow> py_error + approach_win" where
  "checkThreshold w =
     (case py_index (der_arr w) (- 1) of
        Inl e \<Rightarrow> Inl e
      | Inr d \<Rightarrow>
         (case py_index (threshold (av w)) (stage w) of
            Inl e \<Rightarrow> Inl e
          | Inr thr \<Rightarrow>
             if d < thr
             then (let w1 = w\<lparr>consec := consec w + 1\<rparr>
                   in if consec w1 = consec_req (av w1) then endApproachStage w1 False
                      else Inr w1)
             else Inr (w\<lparr>consec := 0\<rparr>)))"

definition dataLoop :: "approach_win \<Rightarrow> real list \<Rightarrow> py_error + approach_win" where
  "dataLoop w data_n =
     (case acquireData w data_n of
        Inl e \<Rightarrow> Inl e
      | Inr w1 \<Rightarrow> if consec w1 \<noteq> consec_req (av w1) then checkThreshold w1 else Inr w1)"

text \<open>
  \<open>approachUI.__startApproach\<close>, with the widget values \<open>g\<close> that \<open>__snapshot\<close> reads.
  \<open>QThread.start\<close> has no effect on a thread that is running.
\<close>

definition startApproach :: "approach_win \<Rightarrow> approach_widgets \<Rightarrow> py_error + approach_win" where
  "startApproach w g =
     (let w1 = w\<lparr>startButton := False, doc := Doc ''Preaparing approach...'', av := snapshot g\<rparr>
      in if is_axis (anc_z w1)
         then
           (let w2 = emit SrWriteOffset (emit (AncWriteMode (anc_z w1) ''stp'') w1);
                w3 = w2\<lparr>data := ([], []), der_arr := [],
                        consec := consec_req (av w2), stage := - 1\<rparr>;
                w4 = emit ReadTaskStart
                       (emit (ReadTaskClock (5 * rate (av w3)))
                          (emit ReadTaskMake (w3\<lparr>read_task := TaskOpen\<rparr>)));
                w5 = emit DataTimerStart (w4\<lparr>timer_active := True\<rparr>)
            in Inr (emit ThreadStart
                      (if thread w5 = None then w5\<lparr>thread := Some AtBackoff\<rparr> else w5)))
         else Inl ValueError)"

text \<open>
  \<open>ApproachThread.run\<close>, one piece at a time, so that timer events can fall between
  the pieces:
  \<^verbatim>\<open>
  def run(self):
      self.win.doc.setText('Changin to stage {}'.format((self.stage + 2)))
      if self.stage != -1:
          self.win.doc.setText('Backing off a bit...')
          self.anc.step_down_and_wait(self.z, self.steps)
      self.__nextStage()
      self.win.doc.setText('Stabilisation sleep...')
      sleep(5)
      self.win.consec = 0
      self.__writeSteps('c')
      self.win.doc.setText('Approach stage {} in progress'.format((self.stage + 1)))

  def __nextStage(self):
      self.stage += 1
      self.anc.write_volt(self.z, self.av.voltages[self.stage])
      self.anc.write_freq(self.z, self.av.frequencies[self.stage])
      self.steps = self.av.stepcounts[self.stage]
  \<close>
  An exception ends the thread.
\<close>

definition backoff :: "approach_win \<Rightarrow> py_error + approach_win" where
  "backoff w =
     (let w1 = w\<lparr>doc := DocFmt ''Changin to stage {}'' (stage w + 2)\<rparr>
      in if stage w1 \<noteq> - 1
         then
           (let w2 = w1\<lparr>doc := Doc ''Backing off a bit...''\<rparr>
            in if is_axis (anc_z w2) \<and> is_step (steps w2)
               then
                 (case anc_freq w2 of
                    None \<Rightarrow> Inl ValueError
                  | Some f \<Rightarrow>
                     if f = 0 then Inl ZeroDivisionError
                     else Inr (emit (Sleep (real_of_int (steps w2) / real_of_int f))
                                 (emit (AncStepDown (anc_z w2) (steps w2)) w2)))
               else Inl ValueError)
         else Inr w1)"

definition nextStage :: "approach_win \<Rightarrow> py_error + approach_win" where
  "nextStage w =
     (let w1 = w\<lparr>stage := stage w + 1\<rparr>
      in case py_index (voltages (av w1)) (stage w1) of
           Inl e \<Rightarrow> Inl e
         | Inr v \<Rightarrow>
            if is_axis (anc_z w1) \<and> is_volt v
            then
              (let w2 = emit (AncWriteVolt (anc_z w1) v) w1
               in case py_index (frequencies (av w2)) (stage w2) of
                    Inl e \<Rightarrow> Inl e
                  | Inr f \<Rightarrow>
                     if is_freq f
                     then
                       (let w3 = emit (AncWriteFreq (anc_z w2) f) (w2\<lparr>anc_freq := Some f\<rparr>)
                        in case py_index (stepcounts (av w3)) (stage w3) of
                             Inl e \<Rightarrow> Inl e
                           | Inr n \<Rightarrow> Inr (w3\<lparr>steps := n\<rparr>))
                     else Inl ValueError)
            else Inl ValueError)"

definition run_step :: "approach_win \<Rightarrow> py_error + approach_win" where
  "run_step w =
     (case thread w of
        None \<Rightarrow> Inr w
      | Some AtBackoff \<Rightarrow>
         (case backoff w of Inl e \<Rightarrow> Inl e | Inr w1 \<Rightarrow> Inr (w1\<lparr>thread := Some AtNextStage\<rparr>))
      | Some AtNextStage \<Rightarrow>
         (case nextStage w of Inl e \<Rightarrow> Inl e | Inr w1 \<Rightarrow> Inr (w1\<lparr>thread := Some AtSleep\<rparr>))
      | Some AtSleep \<Rightarrow>
         Inr (emit (Sleep 5) (w\<lparr>doc := Doc ''Stabilisation sleep...'',
                                 thread := Some AtConsecReset\<rparr>))
      | Some AtConsecReset \<Rightarrow> Inr (w\<lparr>consec := 0, thread := Some AtWriteSteps\<rparr>)
      | Some AtWriteSteps \<Rightarrow>
         (if is_axis (anc_z w)
          then Inr ((emit (AncStepUpContinuous (anc_z w)) w)
                      \<lparr>doc := DocFmt ''Approach stage {} in progress'' (stage w + 1),
                       thread := None\<rparr>)
          else Inl ValueError))"

text \<open>
  What can happen while an approach is active: the data timer fires with the samples
  the read task has available, the approach thread runs its next piece, or the stop
  button calls \<open>endApproachStage(True)\<close>. A stopped timer does not fire.
\<close>

datatype sched_event = DataTimeout "real list" | ThreadStep | StopButton

definition exec_event :: "approach_win \<Rightarrow> sched_event \<Rightarrow> py_error + approach_win" where
  "exec_event w ev =
     (case ev of
        DataTimeout data_n \<Rightarrow> if timer_active w then dataLoop w data_n else Inr w
      | ThreadStep \<Rightarrow> run_step w
      | StopButton \<Rightarrow> endApproachStage w True)"

fun exec_events :: "approach_win \<Rightarrow> sched_event list \<Rightarrow> py_error + approach_win" where
  "exec_events w [] = Inr w"
| "exec_events w (ev # evs) =
     (case exec_event w ev of Inl e \<Rightarrow> Inl e | Inr w1 \<Rightarrow> exec_events w1 evs)"

section \<open>The specification's wording, for comparison with the code\<close>

text \<open>
  The specification describes the row waveform as \<open>xSteps\<close> linearly spaced values from
  \<open>lowerX\<close> to \<open>upperX\<close>, each repeated \<open>n\<close> times, followed by the reverse; and it
  re-derives a region from a waveform by its minimum, its maximum and the number of
  its unique values. \<open>spec_linear_values\<close> is the linear grid in exact arithmetic,
  \<open>spec_sweep\<close> repeats every value of a grid \<open>n\<close> times.
\<close>

definition spec_linear_values :: "real \<Rightarrow> real \<Rightarrow> nat \<Rightarrow> real list" where
  "spec_linear_values lo hi k = map (\<lambda>i. lo + real i * ((hi - lo) / (real k - 1))) [0..<k]"

definition spec_sweep :: "real list \<Rightarrow> nat \<Rightarrow> real list" where
  "spec_sweep grid n = concat (map (replicate n) grid)"


text \<open>
  The specification's debounce counter, sample by sample: a sample below the threshold
  adds one to the counter, any other sample sets it to zero.
\<close>

fun spec_debounce :: "real \<Rightarrow> int \<Rightarrow> real list \<Rightarrow> int" where
  "spec_debounce thr c [] = c"
| "spec_debounce thr c (d # ds) = spec_debounce thr (if d < thr then c + 1 else 0) ds"

section \<open>Observations on the approach window\<close>

text \<open>
  A step from \<open>w\<close> to \<open>w'\<close> has ended an approach stage when its first two new effects
  are those \<open>endApproachStage\<close> begins with.
\<close>

definition stage_end_fired :: "approach_win \<Rightarrow> approach_win \<Rightarrow> bool" where
  "stage_end_fired w w' =
     (take 2 (drop (length (effects w)) (effects w')) = [ThreadTerminate, AncStopAxis (anc_z w)])"

text \<open>
  The approach thread is preparing a stage while it stands before the statement
  \<open>self.win.consec = 0\<close>: during the backoff, the change of settings and the
  stabilisation sleep.
\<close>

definition preparing :: "approach_win \<Rightarrow> bool" where
  "preparing w =
     (case thread w of
        None \<Rightarrow> False
      | Some pc \<Rightarrow> (case pc of AtWriteSteps \<Rightarrow> False | _ \<Rightarrow> True))"

text \<open>
  The series are aligned: one time stamp, one value and one derivative entry per
  sample, and the derivative entry of the first sample is zero.
\<close>

definition series_ok :: "approach_win \<Rightarrow> bool" where
  "series_ok w =
     (length (fst (data w)) = length (der_arr w) \<and> length (snd (data w)) = length (der_arr w)
      \<and> (if der_arr w = [] then True else der_arr w ! 0 = 0))"

text \<open>The last \<open>n\<close> effects of the window.\<close>

definition last_effects :: "nat \<Rightarrow> approach_win \<Rightarrow> effect list" where
  "last_effects n w = drop (length (effects w) - n) (effects w)"

text \<open>
  The effects end with the writing of the current stage's voltage and frequency to the
  stepper, followed by \<open>after\<close>.
\<close>

definition settings_just_written :: "approach_win \<Rightarrow> effect list \<Rightarrow> bool" where
  "settings_just_written w after =
     (case py_index (voltages (av w)) (stage w) of
        Inl e \<Rightarrow> False
      | Inr v \<Rightarrow>
         (case py_index (frequencies (av w)) (stage w) of
            Inl e \<Rightarrow> False
          | Inr f \<Rightarrow>
             last_effects (2 + length after) w
               = [AncWriteVolt (anc_z w) v, AncWriteFreq (anc_z w) f] @ after))"

text \<open>
  What holds at each point of the approach thread before it resets the counter: the
  counter still equals \<open>consec_req\<close>; before the sleep the settings have just been
  written, after it the sleep has followed them.
\<close>

definition prep_ok :: "approach_win \<Rightarrow> bool" where
  "prep_ok w =
     (case thread w of
        None \<Rightarrow> True
      | Some pc \<Rightarrow>
         (case pc of
            AtBackoff \<Rightarrow> consec w = consec_req (av w)
          | AtNextStage \<Rightarrow> consec w = consec_req (av w)
          | AtSleep \<Rightarrow> consec w = consec_req (av w) \<and> settings_just_written w []
          | AtConsecReset \<Rightarrow> consec w = consec_req (av w) \<and> settings_just_written w [Sleep 5]
          | AtWriteSteps \<Rightarrow> True))"

section \<open>Example states of an approach\<close>

text \<open>
  A two-stage approach with thresholds \<open>-1\<close>, data rate 10 Hz and two consecutive hits
  required: the widget values, the idle window, the window after \<open>__startApproach\<close>, the
  window after the thread's first piece and a timer tick with two samples, a window in
  the middle of stage 1 with one hit counted, and that window after a tick that
  completes the stage.
\<close>

abbreviation (input) ex_widgets :: approach_widgets where
  "ex_widgets \<equiv> \<lparr>stagebox = True, threshold1box = - 1, threshold2box = - 1,
     step1box = 1000, step2box = 200, volt1box = 12, volt2box = 12, freq1box = 200,
     freq2box = 50, ratebox = 10, consecbox = 2\<rparr>"

abbreviation (input) ex_av :: approachVars where
  "ex_av \<equiv> \<lparr>threshold = [- 1, - 1], stepcounts = [1000, 200], approach_stages = 2,
     voltages = [12, 12], frequencies = [200, 50], rate = 10, consec_req = 2\<rparr>"

abbreviation (input) ex_idle :: approach_win where
  "ex_idle \<equiv> \<lparr>av = ex_av,
     anc_z = 3, data = ([], []), der_arr = [], consec = 0, stage = - 1, steps = 0,
     anc_freq = None, read_task = NoTask, timer_active = False, thread = None,
     doc = Doc ''No active approach.'', startButton = True, effects = []\<rparr>"

abbreviation (input) ex_started :: approach_win where
  "ex_started \<equiv> \<lparr>av = ex_av,
     anc_z = 3, data = ([], []), der_arr = [], consec = 2, stage = - 1, steps = 0,
     anc_freq = None, read_task = TaskOpen, timer_active = True, thread = Some AtBackoff,
     doc = Doc ''Preaparing approach...'', startButton = False,
     effects = [AncWriteMode 3 ''stp'', SrWriteOffset, ReadTaskMake, ReadTaskClock 50,
                ReadTaskStart, DataTimerStart, ThreadStart]\<rparr>"

abbreviation (input) ex_preparing :: approach_win where
  "ex_preparing \<equiv> \<lparr>av = ex_av,
     anc_z = 3, data = ([0, 1 / 50], [5, 3]), der_arr = [0, - 100], consec = 2,
     stage = - 1, steps = 0, anc_freq = None, read_task = TaskOpen, timer_active = True,
     thread = Some AtNextStage, doc = DocFmt ''Changin to stage {}'' 1, startButton = False,
     effects = [AncWriteMode 3 ''stp'', SrWriteOffset, ReadTaskMake, ReadTaskClock 50,
                ReadTaskStart, DataTimerStart, ThreadStart]\<rparr>"

abbreviation (input) ex_running :: approach_win where
  "ex_running \<equiv> \<lparr>av = ex_av,
     anc_z = 3, data = ([0], [0]), der_arr = [0], consec = 1, stage = 0, steps = 1000,
     anc_freq = Some 200, read_task = TaskOpen, timer_active = True, thread = None,
     doc = DocFmt ''Approach stage {} in progress'' 1, startButton = False, effects = []\<rparr>"

abbreviation (input) ex_fired :: approach_win where
  "ex_fired \<equiv> \<lparr>av = ex_av,
     anc_z = 3, data = ([0, 1 / 50, 1 / 25], [0, 0, - 1]), der_arr = [0, 0, - 50],
     consec = 2, stage = 0, steps = 1000,
     anc_freq = Some 200, read_task = TaskOpen, timer_active = True,
     thread = Some AtBackoff,
     doc = DocFmt ''Approach stage {} in progress'' 1, startButton = False,
     effects = [ThreadTerminate, AncStopAxis 3, ThreadStart]\<rparr>"

section \<open>The environment of the step data\<close>

text \<open>
  The arrays of a region fit in memory: the grid of \<open>xs\<close> values, the row of \<open>n\<close>
  repetitions of each, the doubled row and the grid of \<open>ys\<close> values.
\<close>

definition fits :: "(nat \<Rightarrow> bool) \<Rightarrow> int \<Rightarrow> int \<Rightarrow> int \<Rightarrow> bool" where
  "fits mem xs n ys =
     (mem (nat xs) \<and> mem (nat (n * xs)) \<and> mem (2 * nat (n * xs)) \<and> mem (nat ys))"

text \<open>
  Two instances for examples: arithmetic whose results need no rounding (the examples
  use values for which this is what float64 does: small whole numbers and halves,
  quarters of them), and a memory that holds every array.
\<close>

definition no_rounding :: "real \<Rightarrow> real" where
  "no_rounding x = x"

definition always_fits :: "nat \<Rightarrow> bool" where
  "always_fits n = True"

text \<open>
  A region with a negative number of steps, as a program file can hold it, and an idle
  scan window: no read task, no scan running, no driver call made.
\<close>

abbreviation (input) ex_bad_region :: scanVars where
  "ex_bad_region \<equiv> \<lparr>lowervx = 0, uppervx = 7, lowervy = 0, uppervy = 7, xsteps = - 1,
     ysteps = 2, settle = 1 / 2, data_rate = 100, log_on = True, lowerV = 0, upperV = 7,
     linx = [], liny = []\<rparr>"

abbreviation (input) ex_scan_idle :: scan_win where
  "ex_scan_idle \<equiv> \<lparr>sv = \<lparr>lowervx = 0, uppervx = 7, lowervy = 0, uppervy = 7, xsteps = 21,
                          ysteps = 21, settle = 1 / 2, data_rate = 100, log_on = True,
                          lowerV = 0, upperV = 7, linx = [], liny = []\<rparr>,
     scan_data = [[], []], meas_list = [''ai0'', ''ai1''],
     write_list = [''ao0'', ''ao1''], DEVname = ''Dev1'',
     scan_read_task = None, line_scan_running = False,
     graph_timer_active = False, write_timer_active = False,
     wait_timer_active = False, line_i = 0, done_flag = False, calls = [],
     raised = None\<rparr>"

section \<open>Observations on the scan window\<close>

text \<open>A driver call that starts a task.\<close>

definition is_start :: "daq_event \<Rightarrow> bool" where
  "is_start e = (case e of TaskStart n \<Rightarrow> True | _ \<Rightarrow> False)"

text \<open>
  How far a straight-line piece of code has come: \<open>w2\<close> was reached from \<open>w1\<close> by
  issuing the calls \<open>evs\<close> in order; either all of them were recorded and no exception
  is pending, or an exception is pending and a proper initial part of them was
  recorded.
\<close>

definition progress :: "scan_win \<Rightarrow> scan_win \<Rightarrow> daq_event list \<Rightarrow> bool" where
  "progress w1 w2 evs =
     (let m = length (calls w2) - length (calls w1)
      in calls w2 = calls w1 @ take m evs
         \<and> (if raised w2 = None then m = length evs else m < length evs))"

text \<open>
  A scan window ready for \<open>ScanLineThread.run\<close>: two channels, two rows of four
  samples, the read task made but not started.
\<close>

abbreviation (input) ex_scan :: scan_win where
  "ex_scan \<equiv> \<lparr>sv = \<lparr>lowervx = 0, uppervx = 7, lowervy = 0, uppervy = 7, xsteps = 2,
                     ysteps = 2, settle = 1, data_rate = 1, log_on = False, lowerV = 0,
                     upperV = 7, linx = [0, 7, 7, 0], liny = [0, 7]\<rparr>,
     scan_data = [[1, 2], [3, 4]], meas_list = [''ai0'', ''ai1''],
     write_list = [''ao0'', ''ao1''], DEVname = ''Dev1'',
     scan_read_task = Some ''read'', line_scan_running = True,
     graph_timer_active = True, write_timer_active = False,
     wait_timer_active = False, line_i = 0, done_flag = False,
     calls = [MakeReadTask ''read'' [''ai0'', ''ai1''], CfgSampClkContinuous ''read'' 1,
              Commit ''read''],
     raised = None\<rparr>"


section \<open>The step data of a scan\<close>

lemma length_linspace_fl: "length (linspace_fl fl lo hi k) = k"
  by (simp add: linspace_fl_def Let_def)

lemma last_linspace_fl:
  assumes "2 \<le> k"
  shows "last (linspace_fl fl lo hi k) = hi"
proof -
  have "linspace_fl fl lo hi k \<noteq> []"
    using assms length_linspace_fl [of fl lo hi k] by auto
  then have "last (linspace_fl fl lo hi k) = linspace_fl fl lo hi k ! (k - 1)"
    by (simp add: last_conv_nth length_linspace_fl)
  also have "\<dots> = hi" using assms by (simp add: linspace_fl_def Let_def)
  finally show ?thesis .
qed

lemma hd_linspace_fl:
  assumes "2 \<le> k" "fl 0 = 0" "fl lo = lo"
  shows "hd (linspace_fl fl lo hi k) = lo"
proof -
  have ne: "linspace_fl fl lo hi k \<noteq> []"
    using assms(1) length_linspace_fl [of fl lo hi k] by auto
  have "hd (linspace_fl fl lo hi k) = linspace_fl fl lo hi k ! 0"
    using ne by (simp add: hd_conv_nth)
  also have "\<dots> = lo" using assms by (simp add: linspace_fl_def Let_def)
  finally show ?thesis .
qed

lemma length_spec_linear_values: "length (spec_linear_values lo hi k) = k"
  by (simp add: spec_linear_values_def)

lemma nth_spec_linear_values:
  "i < k \<Longrightarrow> spec_linear_values lo hi k ! i = lo + real i * ((hi - lo) / (real k - 1))"
  by (simp add: spec_linear_values_def)

lemma linspace_fl_exact:
  assumes "2 \<le> k" "\<forall>x. fl x = x"
  shows "linspace_fl fl lo hi k = spec_linear_values lo hi k"
proof (rule nth_equalityI)
  show "length (linspace_fl fl lo hi k) = length (spec_linear_values lo hi k)"
    by (simp add: length_linspace_fl length_spec_linear_values)
next
  fix i assume "i < length (linspace_fl fl lo hi k)"
  then have i: "i < k" by (simp add: length_linspace_fl)
  have k1: "real k - 1 \<noteq> 0" using assms(1) by simp
  show "linspace_fl fl lo hi k ! i = spec_linear_values lo hi k ! i"
  proof (cases "i = k - 1")
    case True
    have "linspace_fl fl lo hi k ! i = hi"
      using assms(1) i True by (simp add: linspace_fl_def Let_def)
    moreover have "spec_linear_values lo hi k ! i = hi"
      using assms(1) i True k1 by (simp add: nth_spec_linear_values of_nat_diff)
    ultimately show ?thesis by simp
  next
    case False
    show ?thesis
    proof (cases "(hi - lo) / (real k - 1) = 0")
      case z: True
      then have "hi - lo = 0" using k1 by simp
      then show ?thesis
        using assms i False
        by (simp add: linspace_fl_def Let_def nth_spec_linear_values)
    next
      case nz: False
      then show ?thesis
        using assms i False
        by (simp add: linspace_fl_def Let_def nth_spec_linear_values add.commute)
    qed
  qed
qed

lemma length_spec_sweep: "length (spec_sweep grid n) = length grid * n"
  unfolding spec_sweep_def by (induction grid) simp_all


lemma py_int_neg_iff: "py_int x < 0 \<longleftrightarrow> x \<le> - 1"
  by (auto simp: py_int_def)

lemma py_int_nonneg: "0 \<le> x \<Longrightarrow> 0 \<le> py_int x"
  by (simp add: py_int_def)

lemma stepData_Inr:
  assumes "0 \<le> xs" "0 \<le> ys" "0 \<le> c" "c = py_int (fl (st * dr))" "fits mem xs c ys"
  shows "stepData fl mem lo hi xs ly uy ys st dr =
    Inr (spec_sweep (linspace_fl fl lo hi (nat xs)) (nat c)
           @ rev (spec_sweep (linspace_fl fl lo hi (nat xs)) (nat c)),
         linspace_fl fl ly uy (nat ys))"
proof -
  let ?grid = "linspace_fl fl lo hi (nat xs)"
  have m: "mem (nat xs)" "mem (nat (c * xs))" "mem (2 * nat (c * xs))" "mem (nat ys)"
    using assms(5) by (simp_all add: fits_def)
  have t: "nat (c * xs) = nat xs * nat c"
    using assms(1,3) by (simp add: nat_mult_distrib mult.commute)
  have nn: "\<not> c * xs < 0" using assms(1,3) by (simp add: mult_less_0_iff)
  have l1: "np_linspace fl mem lo hi xs = Inr ?grid"
    using assms(1) m(1) by (simp add: np_linspace_def)
  have tot: "py_int (fl (st * dr)) * int (length ?grid) = c * xs"
    using assms(1,4) by (simp add: length_linspace_fl)
  have l2: "np_repeat mem ?grid (fl (st * dr)) = Inr (spec_sweep ?grid (nat c))"
    unfolding np_repeat_def Let_def tot using nn m(2) assms(4)
    by (simp add: spec_sweep_def)
  have l3: "mem (2 * length (spec_sweep ?grid (nat c)))"
    using m(3) by (simp add: length_spec_sweep length_linspace_fl t)
  have l4: "np_linspace fl mem ly uy ys = Inr (linspace_fl fl ly uy (nat ys))"
    using assms(2) m(4) by (simp add: np_linspace_def)
  show ?thesis by (simp add: stepData_def l1 l2 l3 l4)
qed

lemma stepData_Inl_cases:
  assumes "stepData fl mem lo hi xs ly uy ys st dr = Inl e" "c = py_int (fl (st * dr))"
  shows "(e = ValueError \<and> (xs < 0 \<or> ys < 0 \<or> (0 < xs \<and> c < 0)))
         \<or> (e = MemoryError \<and> \<not> fits mem xs c ys)"
proof (cases "xs < 0")
  case True
  then show ?thesis using assms(1) by (simp add: stepData_def np_linspace_def)
next
  case xs: False
  let ?grid = "linspace_fl fl lo hi (nat xs)"
  show ?thesis
  proof (cases "mem (nat xs)")
    case False
    then show ?thesis using assms(1) xs by (simp add: stepData_def np_linspace_def fits_def)
  next
    case m1: True
    have l1: "np_linspace fl mem lo hi xs = Inr ?grid"
      using xs m1 by (simp add: np_linspace_def)
    have tot: "py_int (fl (st * dr)) * int (length ?grid) = c * xs"
      using xs assms(2) by (simp add: length_linspace_fl)
    show ?thesis
    proof (cases "c * xs < 0")
      case True
      then have "0 < xs \<and> c < 0" using xs by (auto simp: mult_less_0_iff)
      moreover have "np_repeat mem ?grid (fl (st * dr)) = Inl ValueError"
        unfolding np_repeat_def Let_def tot using True by simp
      ultimately show ?thesis using assms(1) by (simp add: stepData_def l1)
    next
      case nn: False
      show ?thesis
      proof (cases "mem (nat (c * xs))")
        case False
        then have "np_repeat mem ?grid (fl (st * dr)) = Inl MemoryError"
          unfolding np_repeat_def Let_def tot using nn by simp
        then show ?thesis using assms(1) False by (simp add: stepData_def l1 fits_def)
      next
        case m2: True
        have l2: "np_repeat mem ?grid (fl (st * dr)) = Inr (spec_sweep ?grid (nat c))"
          unfolding np_repeat_def Let_def tot using nn m2 assms(2)
          by (simp add: spec_sweep_def)
        have len: "length (spec_sweep ?grid (nat c)) = nat (c * xs)"
        proof (cases "0 \<le> c")
          case True
          then show ?thesis
            using xs by (simp add: length_spec_sweep length_linspace_fl nat_mult_distrib mult.commute)
        next
          case False
          then have "xs = 0" using nn xs by (auto simp: mult_less_0_iff)
          then show ?thesis by (simp add: length_spec_sweep length_linspace_fl)
        qed
        show ?thesis
        proof (cases "mem (2 * nat (c * xs))")
          case False
          then show ?thesis using assms(1) by (simp add: stepData_def l1 l2 len fits_def)
        next
          case m3: True
          show ?thesis
          proof (cases "ys < 0")
            case True
            then have "np_linspace fl mem ly uy ys = Inl ValueError"
              by (simp add: np_linspace_def)
            then show ?thesis
              using assms(1) m3 True by (simp add: stepData_def l1 l2 len)
          next
            case False
            show ?thesis
            proof (cases "mem (nat ys)")
              case True
              then have "np_linspace fl mem ly uy ys = Inr (linspace_fl fl ly uy (nat ys))"
                using False by (simp add: np_linspace_def)
              then show ?thesis using assms(1) m3 by (simp add: stepData_def l1 l2 len)
            next
              case my: False
              then have "np_linspace fl mem ly uy ys = Inl MemoryError"
                using False by (simp add: np_linspace_def)
              then show ?thesis
                using assms(1) m3 my by (simp add: stepData_def l1 l2 len fits_def)
            qed
          qed
        qed
      qed
    qed
  qed
qed

lemma stepData_ValueError:
  assumes "xs < 0 \<or> (fits mem xs c ys \<and> (ys < 0 \<or> (0 < xs \<and> c < 0)))"
    "c = py_int (fl (st * dr))"
  shows "stepData fl mem lo hi xs ly uy ys st dr = Inl ValueError"
proof (cases "xs < 0")
  case True
  then show ?thesis by (simp add: stepData_def np_linspace_def)
next
  case xs: False
  then have f: "fits mem xs c ys" and d: "ys < 0 \<or> (0 < xs \<and> c < 0)" using assms(1) by auto
  let ?grid = "linspace_fl fl lo hi (nat xs)"
  have m: "mem (nat xs)" "mem (nat (c * xs))" "mem (2 * nat (c * xs))"
    using f by (simp_all add: fits_def)
  have l1: "np_linspace fl mem lo hi xs = Inr ?grid"
    using xs m(1) by (simp add: np_linspace_def)
  have tot: "py_int (fl (st * dr)) * int (length ?grid) = c * xs"
    using xs assms(2) by (simp add: length_linspace_fl)
  show ?thesis
  proof (cases "0 < xs \<and> c < 0")
    case True
    then have "c * xs < 0" by (simp add: mult_less_0_iff)
    then have "np_repeat mem ?grid (fl (st * dr)) = Inl ValueError"
      unfolding np_repeat_def Let_def tot by simp
    then show ?thesis by (simp add: stepData_def l1)
  next
    case False
    then have ys: "ys < 0" using d by blast
    have nn: "\<not> c * xs < 0" using False xs by (auto simp: mult_less_0_iff)
    have l2: "np_repeat mem ?grid (fl (st * dr)) = Inr (spec_sweep ?grid (nat c))"
      unfolding np_repeat_def Let_def tot using nn m(2) assms(2)
      by (simp add: spec_sweep_def)
    have len: "length (spec_sweep ?grid (nat c)) = nat (c * xs)"
    proof (cases "0 \<le> c")
      case True
      then show ?thesis
        using xs by (simp add: length_spec_sweep length_linspace_fl nat_mult_distrib mult.commute)
    next
      case False
      then have "xs = 0" using nn xs by (auto simp: mult_less_0_iff)
      then show ?thesis by (simp add: length_spec_sweep length_linspace_fl)
    qed
    have "np_linspace fl mem ly uy ys = Inl ValueError"
      using ys by (simp add: np_linspace_def)
    then show ?thesis using m(3) by (simp add: stepData_def l1 l2 len)
  qed
qed


lemma startLineScan_stepdata_fails:
  assumes "stepdata fl mem (set_region vals (sv w)) = Inl e"
  shows "calls (startLineScan fl mem faults vals w) = calls w"
    "scan_read_task (startLineScan fl mem faults vals w) = scan_read_task w"
    "line_scan_running (startLineScan fl mem faults vals w) = line_scan_running w"
    "graph_timer_active (startLineScan fl mem faults vals w) = graph_timer_active w"
  using assms by (simp_all add: startLineScan_def raise_in_def Let_def)

text \<open>
  Claim C4, as the code has it. \<open>stepData\<close> validates nothing and knows no
  \<open>InvalidRegion\<close>. With a float product \<open>settle * data_rate\<close> in the range of a 64-bit
  integer: it returns normally whenever \<open>xsteps\<close>, \<open>ysteps\<close> and the product are not
  negative and the arrays fit in memory, in particular for one step, a zero rate or a
  zero settle time; it raises NumPy's ValueError for a negative \<open>xsteps\<close>, and, the arrays
  fitting in memory, for a negative \<open>ysteps\<close> or a product \<open>\<le> -1\<close> with a positive
  \<open>xsteps\<close>; and it raises nothing but ValueError, and that only for a negative
  \<open>xsteps\<close>, a negative \<open>ysteps\<close> or a product \<open>\<le> -1\<close>, or MemoryError. When
  \<open>stepdata\<close> raises in \<open>__startLineScan\<close>, no driver call has been made for that scan,
  \<open>self.read_task\<close> is as it was, and neither the scan thread nor the graph timer is
  started.
\<close>

theorem stepData_rejection:
  assumes "- (2 ^ 63) \<le> fl (st * dr)" "fl (st * dr) < 2 ^ 63"
  shows "(0 \<le> xs \<and> 0 \<le> ys \<and> 0 \<le> fl (st * dr) \<and> fits mem xs (py_int (fl (st * dr))) ys
            \<longrightarrow> (\<exists>r. stepData fl mem lo hi xs ly uy ys st dr = Inr r))
         \<and> (xs < 0 \<or> (fits mem xs (py_int (fl (st * dr))) ys
                        \<and> (ys < 0 \<or> (0 < xs \<and> fl (st * dr) \<le> - 1)))
            \<longrightarrow> stepData fl mem lo hi xs ly uy ys st dr = Inl ValueError)
         \<and> (stepData fl mem lo hi xs ly uy ys st dr = Inl e
            \<longrightarrow> (e = ValueError \<and> (xs < 0 \<or> ys < 0 \<or> fl (st * dr) \<le> - 1))
                \<or> (e = MemoryError \<and> \<not> fits mem xs (py_int (fl (st * dr))) ys))
         \<and> (stepdata fl mem (set_region vals (sv w)) = Inl e'
            \<longrightarrow> calls (startLineScan fl mem faults vals w) = calls w
                \<and> scan_read_task (startLineScan fl mem faults vals w) = scan_read_task w
                \<and> line_scan_running (startLineScan fl mem faults vals w) = line_scan_running w
                \<and> graph_timer_active (startLineScan fl mem faults vals w)
                    = graph_timer_active w)"
proof -
  let ?c = "py_int (fl (st * dr))"
  have a: "\<exists>r. stepData fl mem lo hi xs ly uy ys st dr = Inr r"
    if "0 \<le> xs \<and> 0 \<le> ys \<and> 0 \<le> fl (st * dr) \<and> fits mem xs ?c ys"
  proof -
    have "0 \<le> ?c" using that by (simp add: py_int_nonneg)
    then show ?thesis
      using that stepData_Inr [of xs ys ?c fl st dr mem lo hi ly uy] by simp
  qed
  have b: "stepData fl mem lo hi xs ly uy ys st dr = Inl ValueError"
    if "xs < 0 \<or> (fits mem xs ?c ys \<and> (ys < 0 \<or> (0 < xs \<and> fl (st * dr) \<le> - 1)))"
    using that by (intro stepData_ValueError [where c = ?c]) (auto simp: py_int_neg_iff)
  have c: "(e = ValueError \<and> (xs < 0 \<or> ys < 0 \<or> fl (st * dr) \<le> - 1))
                \<or> (e = MemoryError \<and> \<not> fits mem xs ?c ys)"
    if "stepData fl mem lo hi xs ly uy ys st dr = Inl e"
    using stepData_Inl_cases [OF that, of ?c] by (auto simp: py_int_neg_iff)
  have d: "calls (startLineScan fl mem faults vals w) = calls w
                \<and> scan_read_task (startLineScan fl mem faults vals w) = scan_read_task w
                \<and> line_scan_running (startLineScan fl mem faults vals w) = line_scan_running w
                \<and> graph_timer_active (startLineScan fl mem faults vals w)
                    = graph_timer_active w"
    if "stepdata fl mem (set_region vals (sv w)) = Inl e'"
    using startLineScan_stepdata_fails [OF that] by simp
  show ?thesis using a b c d by blast
qed

text \<open>
  Claim C4 as stated: \<open>stepData\<close> rejects \<open>xsteps < 2\<close>, a rate \<open>\<le> 0\<close> and a settle time
  \<open>\<le> 0\<close>. It rejects none of the three: one step gives a constant row, a zero rate or
  settle time gives an empty row. All values of these computations are whole numbers
  or halves, which float64 holds exactly.
\<close>

theorem stepData_no_validation_counterexample:
  "stepData no_rounding always_fits 0 7 1 0 7 2 (1/2) 2 = Inr ([0, 0], [0, 7])
   \<and> stepData no_rounding always_fits 0 7 2 0 7 2 (1/2) 0 = Inr ([], [0, 7])
   \<and> stepData no_rounding always_fits 0 7 2 0 7 2 0 100 = Inr ([], [0, 7])"
  by (simp add: stepData_def np_linspace_def np_repeat_def linspace_fl_def py_int_def
        no_rounding_def always_fits_def upt_rec)


theorem stepData_rejection_witness:
  "- (2 ^ 63) \<le> no_rounding (1 / 2 * 100) \<and> no_rounding (1 / 2 * 100) < 2 ^ 63
   \<and> fits always_fits 2 (py_int (no_rounding (1 / 2 * 100))) 2
   \<and> (\<exists>r. stepData no_rounding always_fits 0 7 2 0 7 2 (1 / 2) 100 = Inr r)
   \<and> stepData no_rounding always_fits 0 7 (- 1) 0 7 2 (1 / 2) 100 = Inl ValueError
   \<and> stepdata no_rounding always_fits (set_region ex_bad_region (sv ex_scan_idle))
        = Inl ValueError
   \<and> calls (startLineScan no_rounding always_fits (\<lambda>k. False) ex_bad_region ex_scan_idle) = []
   \<and> scan_read_task (startLineScan no_rounding always_fits (\<lambda>k. False) ex_bad_region
        ex_scan_idle) = None
   \<and> line_scan_running (startLineScan no_rounding always_fits (\<lambda>k. False) ex_bad_region
        ex_scan_idle) = False
   \<and> graph_timer_active (startLineScan no_rounding always_fits (\<lambda>k. False) ex_bad_region
        ex_scan_idle) = False"
proof -
  have r: "- (2 ^ 63) \<le> no_rounding (1 / 2 * 100)" "no_rounding (1 / 2 * 100) < 2 ^ 63"
    by (simp_all add: no_rounding_def)
  have m: "fits always_fits 2 (py_int (no_rounding (1 / 2 * 100))) 2"
    by (simp add: fits_def always_fits_def)
  have f: "stepdata no_rounding always_fits (set_region ex_bad_region (sv ex_scan_idle))
        = Inl ValueError"
    by (simp add: stepdata_def set_region_def stepData_def np_linspace_def)
  have ok: "\<exists>r. stepData no_rounding always_fits 0 7 2 0 7 2 (1 / 2) 100 = Inr r"
    using stepData_rejection [where fl = no_rounding and st = "1 / 2" and dr = 100
      and xs = 2 and ys = 2 and mem = always_fits
      and lo = 0 and hi = 7 and ly = 0 and uy = 7, OF r] r m
    by (simp add: no_rounding_def)
  from stepData_rejection [where fl = no_rounding and st = "1 / 2" and dr = 100
      and xs = "- 1" and ys = 2 and mem = always_fits
      and lo = 0 and hi = 7 and ly = 0 and uy = 7 and e = ValueError and e' = ValueError
      and vals = ex_bad_region and w = ex_scan_idle and faults = "\<lambda>k. False", OF r]
  show ?thesis using r f m ok by simp
qed

lemma linspace_fl_hd_last:
  assumes "2 \<le> k"
  shows "length (linspace_fl fl lo hi k) = k"
    "last (linspace_fl fl lo hi k) = hi"
    "fl 0 = 0 \<and> fl lo = lo \<longrightarrow> hd (linspace_fl fl lo hi k) = lo"
  using assms by (simp_all add: length_linspace_fl last_linspace_fl hd_linspace_fl)

text \<open>
  Claim C5, as the code has it. For \<open>xsteps \<ge> 2\<close>, a \<open>ysteps\<close> that \<open>linspace\<close> accepts,
  and a float product \<open>settle * data_rate\<close> that is not negative and below \<open>2^63\<close> (as
  for a positive settle time and rate of ordinary size), the arrays fitting in memory:
  \<open>stepData\<close> returns as its x sequence the \<open>xsteps\<close> grid values that \<open>linspace\<close>
  computes from \<open>lowervx\<close> to \<open>uppervx\<close>, each repeated \<open>n\<close> times, followed by the exact
  reverse, of length \<open>2 * xsteps * n\<close>, where \<open>n\<close> is the float product truncated to an
  integer (not rounded). The grid ends with \<open>uppervx\<close> exactly, begins with \<open>lowervx\<close>,
  and is the linear grid up to the rounding of float64: without rounding it is the
  linear grid.
\<close>

theorem stepData_xSequence:
  assumes "2 \<le> xs" "0 \<le> ys" "0 \<le> fl (st * dr)" "fl (st * dr) < 2 ^ 63"
    "fits mem xs (py_int (fl (st * dr))) ys"
  shows "\<exists>liny. stepData fl mem lo hi xs ly uy ys st dr =
            Inr (spec_sweep (linspace_fl fl lo hi (nat xs)) (nat (py_int (fl (st * dr))))
                   @ rev (spec_sweep (linspace_fl fl lo hi (nat xs))
                            (nat (py_int (fl (st * dr))))), liny)
          \<and> int (length (spec_sweep (linspace_fl fl lo hi (nat xs))
                            (nat (py_int (fl (st * dr))))
                   @ rev (spec_sweep (linspace_fl fl lo hi (nat xs))
                            (nat (py_int (fl (st * dr)))))))
              = 2 * xs * py_int (fl (st * dr))
          \<and> int (length (linspace_fl fl lo hi (nat xs))) = xs
          \<and> last (linspace_fl fl lo hi (nat xs)) = hi
          \<and> (fl 0 = 0 \<and> fl lo = lo \<longrightarrow> hd (linspace_fl fl lo hi (nat xs)) = lo)
          \<and> ((\<forall>x. fl x = x) \<longrightarrow>
                linspace_fl fl lo hi (nat xs) = spec_linear_values lo hi (nat xs))"
proof -
  let ?c = "py_int (fl (st * dr))"
  let ?grid = "linspace_fl fl lo hi (nat xs)"
  have c: "0 \<le> ?c" using assms(3) by (simp add: py_int_nonneg)
  have k: "2 \<le> nat xs" using assms(1) by simp
  have xs0: "0 \<le> xs" using assms(1) by simp
  have run: "stepData fl mem lo hi xs ly uy ys st dr =
          Inr (spec_sweep ?grid (nat ?c) @ rev (spec_sweep ?grid (nat ?c)),
               linspace_fl fl ly uy (nat ys))"
    by (rule stepData_Inr [where fl = fl and st = st and dr = dr, OF xs0 assms(2) c refl assms(5)])
  have len: "int (length (spec_sweep ?grid (nat ?c) @ rev (spec_sweep ?grid (nat ?c))))
              = 2 * xs * ?c"
    using xs0 c by (simp add: length_spec_sweep length_linspace_fl)
  have g: "int (length ?grid) = xs" using xs0 by (simp add: length_linspace_fl)
  have ex: "(\<forall>x. fl x = x) \<longrightarrow> ?grid = spec_linear_values lo hi (nat xs)"
    using linspace_fl_exact [OF k] by blast
  show ?thesis
    using run len g linspace_fl_hd_last(2,3) [OF k, of fl lo hi] ex by blast
qed

theorem stepData_xSequence_witness:
  "(2::int) \<le> 21 \<and> (0::int) \<le> 21 \<and> 0 \<le> no_rounding (1 / 2 * 100)
   \<and> no_rounding (1 / 2 * 100) < 2 ^ 63
   \<and> fits always_fits 21 (py_int (no_rounding (1 / 2 * 100))) 21
   \<and> (\<exists>liny. stepData no_rounding always_fits 0 7 21 0 7 21 (1 / 2) 100 =
            Inr (spec_sweep (linspace_fl no_rounding 0 7 21) 50
                   @ rev (spec_sweep (linspace_fl no_rounding 0 7 21) 50), liny))
   \<and> length (spec_sweep (linspace_fl no_rounding 0 7 21) 50
                   @ rev (spec_sweep (linspace_fl no_rounding 0 7 21) 50)) = 2100
   \<and> length (linspace_fl no_rounding 0 7 21) = 21
   \<and> hd (linspace_fl no_rounding 0 7 21) = 0
   \<and> last (linspace_fl no_rounding 0 7 21) = 7
   \<and> linspace_fl no_rounding 0 7 21 = spec_linear_values 0 7 21"
proof -
  have h: "(2::int) \<le> 21" "(0::int) \<le> 21" "0 \<le> no_rounding (1 / 2 * 100)"
    "no_rounding (1 / 2 * 100) < 2 ^ 63"
    "fits always_fits 21 (py_int (no_rounding (1 / 2 * 100))) 21"
    by (simp_all add: no_rounding_def fits_def always_fits_def)
  have n: "py_int (no_rounding 50) = 50"
    by (simp add: no_rounding_def py_int_def)
  have e: "no_rounding 0 = 0" "\<forall>x. no_rounding x = x" by (simp_all add: no_rounding_def)
  note t = stepData_xSequence [where fl = no_rounding and st = "1 / 2" and dr = 100
      and lo = 0 and hi = 7 and ly = 0 and uy = 7, OF h]
  have t1: "(\<exists>liny. stepData no_rounding always_fits 0 7 21 0 7 21 (1 / 2) 100 =
            Inr (spec_sweep (linspace_fl no_rounding 0 7 21) 50
                   @ rev (spec_sweep (linspace_fl no_rounding 0 7 21) 50), liny))
   \<and> length (spec_sweep (linspace_fl no_rounding 0 7 21) 50
                   @ rev (spec_sweep (linspace_fl no_rounding 0 7 21) 50)) = 2100
   \<and> length (linspace_fl no_rounding 0 7 21) = 21
   \<and> last (linspace_fl no_rounding 0 7 21) = 7"
    using t by (simp add: n)
  have t2: "hd (linspace_fl no_rounding 0 7 (nat 21)) = 0"
    using t e(1) by blast
  have t3: "linspace_fl no_rounding 0 7 (nat 21) = spec_linear_values 0 7 (nat 21)"
    using t e(2) by blast
  show ?thesis
    using h t1 t2 t3 [symmetric] by simp
qed

text \<open>
  The specification's scenario under any rounding that leaves the float \<open>50\<close> alone, as
  float64 does: the product \<open>0.5 * 100\<close> is \<open>50\<close> and the row has 2100 samples.
\<close>

lemma stepData_scenario_row_length:
  assumes "fl 50 = 50" "fits mem 21 50 21"
  shows "\<exists>linx liny. stepData fl mem 0 7 21 0 7 21 (1 / 2) 100 = Inr (linx, liny)
           \<and> length linx = 2100"
proof -
  have c: "50 = py_int (fl (1 / 2 * 100))" using assms(1) by (simp add: py_int_def)
  have "stepData fl mem 0 7 21 0 7 21 (1 / 2) 100 =
    Inr (spec_sweep (linspace_fl fl 0 7 (nat 21)) (nat 50)
           @ rev (spec_sweep (linspace_fl fl 0 7 (nat 21)) (nat 50)),
         linspace_fl fl 0 7 (nat 21))"
    by (rule stepData_Inr [where fl = fl and st = "1 / 2" and dr = 100 and c = 50,
          OF _ _ _ c assms(2)]) simp_all
  then show ?thesis by (simp add: length_spec_sweep length_linspace_fl)
qed

text \<open>
  Claim C5 as stated speaks of \<open>round(settle * data_rate)\<close> repetitions. At settle time
  0.75 and rate 2 the product is 1.5: each of the three values 0, 4, 8 is repeated once
  (the row has 6 samples), while rounding gives 2. All values of this computation are
  held exactly by float64.
\<close>

theorem stepData_round_counterexample:
  "stepData no_rounding always_fits 0 8 3 0 8 2 (3 / 4) 2 = Inr ([0, 4, 8, 8, 4, 0], [0, 8])
   \<and> round (3 / 4 * 2 :: real) = 2"
  by (simp add: stepData_def np_linspace_def np_repeat_def linspace_fl_def py_int_def
        no_rounding_def always_fits_def upt_rec round_def)






lemma linspace_exact_strictly_increasing:
  assumes "2 \<le> k" "lo < hi" "\<forall>x. fl x = x"
  shows "sorted_wrt (<) (linspace_fl fl lo hi k)"
proof -
  let ?c = "(hi - lo) / (real k - 1)"
  have c: "0 < ?c" using assms(1,2) by simp
  have "sorted_wrt (\<lambda>i j. lo + real i * ?c < lo + real j * ?c) [0..<k]"
  proof (rule sorted_wrt_mono_rel [OF _ sorted_wrt_upt])
    fix i j :: nat assume "i < j"
    then have "real i * ?c < real j * ?c" using c by (intro mult_strict_right_mono) simp_all
    then show "lo + real i * ?c < lo + real j * ?c" by simp
  qed
  then have "sorted_wrt (<) (spec_linear_values lo hi k)"
    by (simp add: spec_linear_values_def sorted_wrt_map)
  then show ?thesis using linspace_fl_exact [OF assms(1,3)] by simp
qed





section \<open>The acquisition buffer\<close>

lemma py_slice_take: "0 < n \<Longrightarrow> py_slice xs 0 n = take (nat n) xs"
  by (simp add: py_slice_def py_clamp_def Let_def min_def)

lemma py_slice_drop: "0 < n \<Longrightarrow> py_slice xs n (int (length xs)) = drop (nat n) xs"
  by (simp add: py_slice_def py_clamp_def Let_def min_def)

text \<open>
  Claim C7, as the code has it. On a channels-by-\<open>T\<close> buffer, \<open>dumpData\<close> with a chunk
  \<open>n > 0\<close> never fails: it returns the first \<open>n\<close> columns of every channel (all \<open>T\<close> of
  them when \<open>T < n\<close>) and keeps the remaining ones, so that returned and kept columns
  together are the old buffer.
\<close>

theorem dumpData_extract:
  assumes "0 < n" "\<forall>row \<in> set (scan_data w). length row = T"
  shows "dumpData w n = (Some (map (take (nat n)) (scan_data w)),
                         w\<lparr>scan_data := map (drop (nat n)) (scan_data w)\<rparr>)
         \<and> map2 (@) (map (take (nat n)) (scan_data w)) (map (drop (nat n)) (scan_data w))
             = scan_data w"
proof -
  have nc: "scan_data w \<noteq> [] \<Longrightarrow> ncols (scan_data w) = T"
    using assms(2) by (cases "scan_data w") (simp_all add: ncols_def)
  have a: "map (\<lambda>row. py_slice row 0 n) (scan_data w) = map (take (nat n)) (scan_data w)"
    using assms(1) by (simp add: py_slice_take)
  have b: "map (\<lambda>row. py_slice row n (int (ncols (scan_data w)))) (scan_data w)
             = map (drop (nat n)) (scan_data w)"
  proof (rule map_cong [OF refl])
    fix row assume r: "row \<in> set (scan_data w)"
    then have "scan_data w \<noteq> []" by auto
    then have "ncols (scan_data w) = length row" using nc assms(2) r by simp
    then show "py_slice row n (int (ncols (scan_data w))) = drop (nat n) row"
      using assms(1) by (simp add: py_slice_drop)
  qed
  have c: "map2 (@) (map (take k) xss) (map (drop k) xss) = xss" for k and xss :: "real list list"
    by (induction xss) simp_all
  show ?thesis using assms(1) a b c by (simp add: dumpData_def)
qed

theorem dumpData_extract_witness:
  "(0::int) < 1
   \<and> list_all (\<lambda>row. length row = 2) [[1, 2], [3, 4 :: real]]
   \<and> fst (dumpData \<lparr>sv = \<lparr>lowervx = 0, uppervx = 7, lowervy = 0, uppervy = 7, xsteps = 2,
                       ysteps = 2, settle = 1, data_rate = 1, log_on = False, lowerV = 0,
                       upperV = 7, linx = [0, 7, 7, 0], liny = [0, 7]\<rparr>,
                scan_data = [[1, 2], [3, 4]], meas_list = [''ai0'', ''ai1''],
                write_list = [''ao0'', ''ao1''], DEVname = ''Dev1'',
                scan_read_task = Some ''read'', line_scan_running = True,
                graph_timer_active = True, write_timer_active = True,
                wait_timer_active = True, line_i = 2, done_flag = False, calls = [],
                raised = None\<rparr> 1) = Some [[1], [3]]"
  using dumpData_extract [of 1
      "\<lparr>sv = \<lparr>lowervx = 0, uppervx = 7, lowervy = 0, uppervy = 7, xsteps = 2,
                       ysteps = 2, settle = 1, data_rate = 1, log_on = False, lowerV = 0,
                       upperV = 7, linx = [0, 7, 7, 0], liny = [0, 7]\<rparr>,
                scan_data = [[1, 2], [3, 4]], meas_list = [''ai0'', ''ai1''],
                write_list = [''ao0'', ''ao1''], DEVname = ''Dev1'',
                scan_read_task = Some ''read'', line_scan_running = True,
                graph_timer_active = True, write_timer_active = True,
                wait_timer_active = True, line_i = 2, done_flag = False, calls = [],
                raised = None\<rparr>" 2]
  by simp

text \<open>
  Claim C7 as stated: extraction fails when fewer than \<open>n\<close> columns are present. With two
  columns present and \<open>n = 3\<close>, \<open>dumpData\<close> returns the two columns and leaves an empty
  buffer.
\<close>

theorem dumpData_short_buffer_counterexample:
  "ncols [[1, 2], [3, 4 :: real]] < 3
   \<and> dumpData \<lparr>sv = \<lparr>lowervx = 0, uppervx = 7, lowervy = 0, uppervy = 7, xsteps = 2,
                       ysteps = 2, settle = 1, data_rate = 1, log_on = False, lowerV = 0,
                       upperV = 7, linx = [0, 7, 7, 0], liny = [0, 7]\<rparr>,
                scan_data = [[1, 2], [3, 4]], meas_list = [''ai0'', ''ai1''],
                write_list = [''ao0'', ''ao1''], DEVname = ''Dev1'',
                scan_read_task = Some ''read'', line_scan_running = True,
                graph_timer_active = True, write_timer_active = True,
                wait_timer_active = True, line_i = 2, done_flag = False, calls = [],
                raised = None\<rparr> 3
       = (Some [[1, 2], [3, 4]],
          \<lparr>sv = \<lparr>lowervx = 0, uppervx = 7, lowervy = 0, uppervy = 7, xsteps = 2,
                       ysteps = 2, settle = 1, data_rate = 1, log_on = False, lowerV = 0,
                       upperV = 7, linx = [0, 7, 7, 0], liny = [0, 7]\<rparr>,
                scan_data = [[], []], meas_list = [''ai0'', ''ai1''],
                write_list = [''ao0'', ''ao1''], DEVname = ''Dev1'',
                scan_read_task = Some ''read'', line_scan_running = True,
                graph_timer_active = True, write_timer_active = True,
                wait_timer_active = True, line_i = 2, done_flag = False, calls = [],
                raised = None\<rparr>)"
  by (simp add: dumpData_def ncols_def py_slice_def py_clamp_def)

text \<open>
  Claim C8. \<open>dumpData\<close> with chunk \<open>0\<close>, its default and what \<open>ScanLineThread.run\<close> calls
  first, returns \<open>None\<close> and replaces the buffer by an empty array with one row per
  measured channel and no column, whatever the buffer held.
\<close>

theorem dumpData_default_clears:
  "dumpData w 0 = (None, w\<lparr>scan_data := replicate (length (meas_list w)) []\<rparr>)
   \<and> ncols (scan_data (snd (dumpData w 0))) = 0
   \<and> length (scan_data (snd (dumpData w 0))) = length (meas_list w)"
  by (cases "meas_list w") (simp_all add: dumpData_def ncols_def)


section \<open>The approach\<close>

lemma length_linspace_vals: "length (linspace_vals lo hi k) = k"
  by (simp add: linspace_vals_def Let_def)

lemma acquireData_keeps:
  assumes "acquireData w data_n = Inr w'"
  shows "consec w' = consec w" "av w' = av w" "stage w' = stage w" "effects w' = effects w"
    "thread w' = thread w" "anc_z w' = anc_z w" "timer_active w' = timer_active w"
    "read_task w' = read_task w" "doc w' = doc w"
  using assms
  by (auto simp: acquireData_def Let_def split: if_splits sum.splits prod.splits)

lemma endApproachStage_keeps:
  assumes "endApproachStage w b = Inr w'"
  shows "consec w' = consec w" "av w' = av w" "stage w' = stage w" "anc_z w' = anc_z w"
    "data w' = data w" "der_arr w' = der_arr w" "is_axis (anc_z w)"
  using assms
  by (auto simp: endApproachStage_def emit_def Let_def split: if_splits)

lemma endApproachStage_effects:
  assumes "endApproachStage w b = Inr w'"
  shows "\<exists>rest. effects w' = effects w @ ThreadTerminate # AncStopAxis (anc_z w) # rest"
  using assms
  by (auto simp: endApproachStage_def emit_def Let_def split: if_splits)

lemma endApproachStage_forced:
  assumes "is_axis (anc_z w)"
  shows "endApproachStage w True =
     Inr (w\<lparr>thread := None, timer_active := False,
            read_task := (if read_task w = TaskOpen then TaskClosed else read_task w),
            doc := Doc ''Approach stopped'', startButton := True,
            effects := effects w @ [ThreadTerminate, AncStopAxis (anc_z w), DataTimerStop]
                         @ (if read_task w = TaskOpen then [ReadTaskClose] else [])\<rparr>)"
  using assms by (simp add: endApproachStage_def emit_def Let_def)

lemma checkThreshold_keeps:
  assumes "checkThreshold w = Inr w'"
  shows "av w' = av w" "stage w' = stage w" "anc_z w' = anc_z w"
    "data w' = data w" "der_arr w' = der_arr w"
  using assms
  by (auto simp: checkThreshold_def Let_def split: if_splits sum.splits
        dest: endApproachStage_keeps)

lemma run_step_keeps:
  assumes "run_step w = Inr w'"
  shows "av w' = av w" "anc_z w' = anc_z w" "data w' = data w" "der_arr w' = der_arr w"
    "timer_active w' = timer_active w"
  using assms
  by (auto simp: run_step_def backoff_def nextStage_def emit_def Let_def
        split: option.splits run_pc.splits if_splits sum.splits)


text \<open>
  Claim C1, as the code has it. On every tick of the data timer while a stage is running
  (the counter is at least \<open>0\<close> and below \<open>consec_req\<close>), the counter is compared once,
  with the newest derivative entry \<open>der_arr[-1]\<close>: it is incremented when that entry is
  below the stage's threshold and set to zero otherwise, whatever the other samples
  of the tick's chunk were; and the stage is ended on that tick if and only if the
  counter has reached \<open>consec_req\<close>.
\<close>

theorem dataLoop_debounce:
  assumes "dataLoop w data_n = Inr w'" "0 \<le> consec w" "consec w < consec_req (av w)"
  shows "\<exists>d thr. py_index (der_arr w') (- 1) = Inr d
           \<and> py_index (threshold (av w)) (stage w) = Inr thr
           \<and> consec w' = (if d < thr then consec w + 1 else 0)
           \<and> (stage_end_fired w w' \<longleftrightarrow> consec w' = consec_req (av w))"
proof -
  from assms(1) obtain w1 where acq: "acquireData w data_n = Inr w1"
    by (auto simp: dataLoop_def split: sum.splits)
  note k = acquireData_keeps [OF acq]
  have ne: "consec w1 \<noteq> consec_req (av w1)" using assms(3) k by simp
  then have chk: "checkThreshold w1 = Inr w'"
    using assms(1) acq by (simp add: dataLoop_def)
  then obtain d thr where d: "py_index (der_arr w1) (- 1) = Inr d"
    and thr: "py_index (threshold (av w1)) (stage w1) = Inr thr"
    by (auto simp: checkThreshold_def split: sum.splits)
  have der: "der_arr w' = der_arr w1" using checkThreshold_keeps [OF chk] by simp
  show ?thesis
  proof (cases "d < thr")
    case False
    then have w': "w' = w1\<lparr>consec := 0\<rparr>"
      using chk d thr by (simp add: checkThreshold_def)
    have "\<not> stage_end_fired w w'"
      using w' k by (simp add: stage_end_fired_def)
    moreover have "consec w' \<noteq> consec_req (av w)" using w' assms(2,3) by simp
    ultimately show ?thesis using False d thr der k w' by auto
  next
    case True
    show ?thesis
    proof (cases "consec w1 + 1 = consec_req (av w1)")
      case reach: True
      then have e: "endApproachStage (w1\<lparr>consec := consec w1 + 1\<rparr>) False = Inr w'"
        using chk d thr True by (simp add: checkThreshold_def Let_def)
      from endApproachStage_effects [OF e] obtain rest where
        "effects w' = effects w @ ThreadTerminate # AncStopAxis (anc_z w) # rest"
        using k by auto
      then have "stage_end_fired w w'" by (simp add: stage_end_fired_def)
      moreover have "consec w' = consec w + 1"
        using endApproachStage_keeps(1) [OF e] k by simp
      ultimately show ?thesis using True d thr der k reach by auto
    next
      case noreach: False
      then have w': "w' = w1\<lparr>consec := consec w1 + 1\<rparr>"
        using chk d thr True by (simp add: checkThreshold_def Let_def)
      have "\<not> stage_end_fired w w'"
        using w' k by (simp add: stage_end_fired_def)
      moreover have "consec w' \<noteq> consec_req (av w)" using w' noreach k by simp
      ultimately show ?thesis using True d thr der k w' by auto
    qed
  qed
qed

lemma ex_dataLoop: "dataLoop ex_running [0, - 1] = Inr ex_fired"
  by (simp add: dataLoop_def acquireData_def linspace_vals_def checkThreshold_def py_index_def
        endApproachStage_def emit_def is_axis_def Let_def upt_rec)

lemma ex_startApproach: "startApproach ex_idle ex_widgets = Inr ex_started"
  by (simp add: startApproach_def snapshot_def emit_def is_axis_def Let_def)

lemma ex_exec_events:
  "exec_events ex_started [ThreadStep, DataTimeout [5, 3]] = Inr ex_preparing"
  by (simp add: exec_event_def run_step_def backoff_def dataLoop_def acquireData_def
        linspace_vals_def Let_def upt_rec)


text \<open>
  Claim C1 as stated counts every sample. In stage 1 with one hit counted and two hits
  required, a tick brings two samples with derivatives \<open>0\<close> and \<open>-50\<close> against the
  threshold \<open>-1\<close>. Sample by sample the counter would be reset by the first and stand at
  \<open>1\<close> after the second; the code looks at \<open>-50\<close> only, counts \<open>2\<close> and ends the stage.
\<close>

theorem dataLoop_last_sample_counterexample:
  "dataLoop ex_running [0, - 1] = Inr ex_fired
   \<and> der_arr ex_fired = der_arr ex_running @ [0, - 50]
   \<and> consec ex_fired = consec_req ex_av
   \<and> stage_end_fired ex_running ex_fired
   \<and> spec_debounce (- 1) (consec ex_running) [0, - 50] = 1"
  using ex_dataLoop by (simp add: stage_end_fired_def)

theorem dataLoop_debounce_witness:
  "dataLoop ex_running [0, - 1] = Inr ex_fired
   \<and> 0 \<le> consec ex_running \<and> consec ex_running < consec_req (av ex_running)
   \<and> (\<exists>d thr. py_index (der_arr ex_fired) (- 1) = Inr d
           \<and> py_index (threshold (av ex_running)) (stage ex_running) = Inr thr
           \<and> consec ex_fired = (if d < thr then consec ex_running + 1 else 0)
           \<and> (stage_end_fired ex_running ex_fired
                \<longleftrightarrow> consec ex_fired = consec_req (av ex_running)))"
proof -
  have a: "0 \<le> consec ex_running" and b: "consec ex_running < consec_req (av ex_running)"
    by simp_all
  from dataLoop_debounce [OF ex_dataLoop a b] show ?thesis
    using ex_dataLoop a b by blast
qed


lemma foldl_update_length:
  "length (foldl (\<lambda>d j. d[j := g j]) d js) = length d"
  by (induction js arbitrary: d) simp_all

lemma foldl_update_nth_other:
  "i \<notin> set js \<Longrightarrow> foldl (\<lambda>d j. d[j := g j]) d js ! i = d ! i"
  by (induction js arbitrary: d) simp_all

lemma acquireData_rate:
  assumes "acquireData w data_n = Inr w'"
  shows "rate (av w) \<noteq> 0"
proof
  assume "rate (av w) = 0"
  then have "acquireData w data_n = Inl ZeroDivisionError"
    by (simp add: acquireData_def Let_def)
  with assms show False by simp
qed

lemma acquireData_later_chunk:
  assumes "acquireData w data_n = Inr w'" "length (fst (data w)) + length (snd (data w)) \<noteq> 0"
  shows "data_n \<noteq> []"
proof
  assume "data_n = []"
  then have "acquireData w data_n = Inl IndexError"
    using assms(2) acquireData_rate [OF assms(1)]
    by (cases "fst (data w) = []") (simp_all add: acquireData_def Let_def)
  with assms(1) show False by simp
qed

lemma acquireData_first_shape:
  assumes "acquireData w data_n = Inr w'" "length (fst (data w)) + length (snd (data w)) = 0"
  shows "\<exists>t d. length t = length data_n \<and> length d = length data_n
           \<and> (if d = [] then True else d ! 0 = 0)
           \<and> w' = w\<lparr>data := (fst (data w) @ t, snd (data w) @ data_n),
                    der_arr := der_arr w @ d\<rparr>"
proof -
  let ?n = "length data_n"
  define t where "t = map (\<lambda>t. t * ((2 / 10) / rate (av w))) (linspace_vals 0 (real ?n - 1) ?n)"
  define d where "d = foldl (\<lambda>d j. d[j := (data_n ! j - data_n ! (j - 1)) / (t ! j - t ! (j - 1))])
              (replicate ?n (0::real)) (rev [1..<?n])"
  have "acquireData w data_n =
          Inr (w\<lparr>data := (fst (data w) @ t, snd (data w) @ data_n), der_arr := der_arr w @ d\<rparr>)"
    using assms(2) acquireData_rate [OF assms(1)]
    by (simp add: acquireData_def Let_def t_def d_def)
  then have w': "w' = w\<lparr>data := (fst (data w) @ t, snd (data w) @ data_n), der_arr := der_arr w @ d\<rparr>"
    using assms(1) by simp
  have lt: "length t = ?n" by (simp add: t_def length_linspace_vals)
  have ld: "length d = ?n" unfolding d_def by (simp only: foldl_update_length length_replicate)
  have "d ! 0 = replicate ?n (0::real) ! 0"
    unfolding d_def by (rule foldl_update_nth_other) simp
  moreover have "d \<noteq> [] \<Longrightarrow> 0 < ?n" using ld by (cases data_n) auto
  ultimately have "if d = [] then True else d ! 0 = 0" by simp
  then show ?thesis using w' lt ld by blast
qed

lemma acquireData_later_shape:
  assumes "acquireData w data_n = Inr w'" "length (fst (data w)) + length (snd (data w)) \<noteq> 0"
  shows "\<exists>t d. length t = length data_n \<and> length d = length data_n
           \<and> w' = w\<lparr>data := (fst (data w) @ t, snd (data w) @ data_n),
                    der_arr := der_arr w @ d\<rparr>"
proof -
  let ?n = "length data_n"
  define t where "t = map (\<lambda>t. t * ((2 / 10) / rate (av w)) + last (fst (data w)))
                        (linspace_vals 1 (real ?n) ?n)"
  define d1 where "d1 = (replicate ?n (0::real))
                     [0 := (data_n ! 0 - last (snd (data w))) / (t ! 0 - last (fst (data w)))]"
  define d where "d = foldl (\<lambda>d j. d[j := (data_n ! j - data_n ! (j - 1)) / (t ! j - t ! (j - 1))])
              d1 (rev [1..<?n])"
  have "acquireData w data_n =
          Inr (w\<lparr>data := (fst (data w) @ t, snd (data w) @ data_n), der_arr := der_arr w @ d\<rparr>)"
    using assms(2) acquireData_rate [OF assms(1)] acquireData_later_chunk [OF assms]
    by (cases "fst (data w) = []") (simp_all add: acquireData_def Let_def t_def d_def d1_def)
  then have w': "w' = w\<lparr>data := (fst (data w) @ t, snd (data w) @ data_n), der_arr := der_arr w @ d\<rparr>"
    using assms(1) by simp
  have lt: "length t = ?n" by (simp add: t_def length_linspace_vals)
  have "length d1 = ?n" by (simp add: d1_def)
  then have ld: "length d = ?n" unfolding d_def by (simp only: foldl_update_length)
  show ?thesis using w' lt ld by blast
qed

lemma acquireData_series_ok:
  assumes "acquireData w data_n = Inr w'" "series_ok w"
  shows "series_ok w'"
proof (cases "length (fst (data w)) + length (snd (data w)) = 0")
  case True
  then have e: "der_arr w = []" "fst (data w) = []" "snd (data w) = []"
    using assms(2) by (auto simp: series_ok_def)
  from acquireData_first_shape [OF assms(1) True] obtain t d where
    "length t = length data_n" "length d = length data_n"
    "if d = [] then True else d ! 0 = 0"
    "w' = w\<lparr>data := (fst (data w) @ t, snd (data w) @ data_n), der_arr := der_arr w @ d\<rparr>"
    by blast
  then show ?thesis using e by (simp add: series_ok_def)
next
  case False
  then have ne: "der_arr w \<noteq> []" using assms(2) by (auto simp: series_ok_def)
  from acquireData_later_shape [OF assms(1) False] obtain t d where
    "length t = length data_n" "length d = length data_n"
    "w' = w\<lparr>data := (fst (data w) @ t, snd (data w) @ data_n), der_arr := der_arr w @ d\<rparr>"
    by blast
  then show ?thesis using assms(2) ne by (simp add: series_ok_def nth_append)
qed

lemma exec_event_series_ok:
  assumes "exec_event w ev = Inr w'" "series_ok w"
  shows "series_ok w'"
proof (cases ev)
  case (DataTimeout data_n)
  show ?thesis
  proof (cases "timer_active w")
    case False
    then show ?thesis using assms DataTimeout by (simp add: exec_event_def)
  next
    case True
    then have dl: "dataLoop w data_n = Inr w'"
      using assms(1) DataTimeout by (simp add: exec_event_def)
    then obtain w1 where acq: "acquireData w data_n = Inr w1"
      by (auto simp: dataLoop_def split: sum.splits)
    have s1: "series_ok w1" by (rule acquireData_series_ok [OF acq assms(2)])
    have "data w' = data w1 \<and> der_arr w' = der_arr w1"
      using dl acq by (auto simp: dataLoop_def split: if_splits dest: checkThreshold_keeps)
    then show ?thesis using s1 by (simp add: series_ok_def)
  qed
next
  case ThreadStep
  then have "run_step w = Inr w'" using assms(1) by (simp add: exec_event_def)
  then have "data w' = data w \<and> der_arr w' = der_arr w" by (simp add: run_step_keeps)
  then show ?thesis using assms(2) by (simp add: series_ok_def)
next
  case StopButton
  then have "endApproachStage w True = Inr w'" using assms(1) by (simp add: exec_event_def)
  then have "data w' = data w \<and> der_arr w' = der_arr w" by (simp add: endApproachStage_keeps)
  then show ?thesis using assms(2) by (simp add: series_ok_def)
qed

lemma exec_events_series_ok:
  "exec_events w evs = Inr w' \<Longrightarrow> series_ok w \<Longrightarrow> series_ok w'"
proof (induction evs arbitrary: w)
  case Nil
  then show ?case by simp
next
  case (Cons ev evs)
  from Cons.prems(1) obtain w1 where 1: "exec_event w ev = Inr w1"
    and 2: "exec_events w1 evs = Inr w'"
    by (auto split: sum.splits)
  show ?case by (rule Cons.IH [OF 2 exec_event_series_ok [OF 1 Cons.prems(2)]])
qed

lemma startApproach_series_ok:
  "startApproach w0 g = Inr w \<Longrightarrow> series_ok w"
  by (auto simp: startApproach_def emit_def series_ok_def Let_def split: if_splits)

text \<open>
  Claim C10. In every state an approach run can reach after \<open>__startApproach\<close>, each
  sample has one derivative entry and the entry of the first sample is \<open>0\<close>, so it is
  below no negative threshold; in particular, with only the first sample acquired,
  \<open>__checkThreshold\<close> under a negative threshold sets the counter to zero and counts no
  hit.
\<close>

theorem first_derivative_stays_zero:
  assumes "startApproach w0 g = Inr w" "exec_events w evs = Inr w'" "der_arr w' \<noteq> []"
  shows "der_arr w' ! 0 = 0
         \<and> length (der_arr w') = length (snd (data w'))
         \<and> (\<forall>thr<0. \<not> der_arr w' ! 0 < thr)
         \<and> (\<forall>thr<0. length (der_arr w') = 1
              \<and> py_index (threshold (av w')) (stage w') = Inr thr
              \<longrightarrow> checkThreshold w' = Inr (w'\<lparr>consec := 0\<rparr>))"
proof -
  have ok: "series_ok w'"
    by (rule exec_events_series_ok [OF assms(2) startApproach_series_ok [OF assms(1)]])
  then have z: "der_arr w' ! 0 = 0" and len: "length (der_arr w') = length (snd (data w'))"
    using assms(3) by (simp_all add: series_ok_def)
  have "checkThreshold w' = Inr (w'\<lparr>consec := 0\<rparr>)"
    if "thr < 0" "length (der_arr w') = 1" "py_index (threshold (av w')) (stage w') = Inr thr"
    for thr
  proof -
    have "py_index (der_arr w') (- 1) = Inr (der_arr w' ! 0)"
      using that(2) by (simp add: py_index_def)
    then show ?thesis using that z by (simp add: checkThreshold_def)
  qed
  then show ?thesis using z len by auto
qed

theorem first_derivative_stays_zero_witness:
  "startApproach ex_idle ex_widgets = Inr ex_started
   \<and> exec_events ex_started [ThreadStep, DataTimeout [5, 3]] = Inr ex_preparing
   \<and> der_arr ex_preparing \<noteq> []
   \<and> der_arr ex_preparing ! 0 = 0
   \<and> length (der_arr ex_preparing) = length (snd (data ex_preparing))"
proof -
  have ne: "der_arr ex_preparing \<noteq> []" by simp
  from first_derivative_stays_zero [OF ex_startApproach ex_exec_events ne] show ?thesis
    using ex_startApproach ex_exec_events ne by blast
qed

lemma prep_ok_preparing: "prep_ok w \<Longrightarrow> preparing w \<Longrightarrow> consec w = consec_req (av w)"
  by (auto simp: prep_ok_def preparing_def split: option.splits run_pc.splits)

lemma prep_ok_not_preparing: "\<not> preparing w \<Longrightarrow> prep_ok w"
  by (auto simp: prep_ok_def preparing_def split: option.splits run_pc.splits)

lemma prep_ok_cong:
  assumes "thread w' = thread w" "consec w' = consec w" "av w' = av w" "stage w' = stage w"
    "effects w' = effects w" "anc_z w' = anc_z w"
  shows "prep_ok w' = prep_ok w"
proof -
  have "settings_just_written w' x = settings_just_written w x" for x
    using assms
    by (simp add: settings_just_written_def last_effects_def split: sum.splits)
  then show ?thesis
    using assms by (simp add: prep_ok_def split: option.splits run_pc.splits)
qed

lemma backoff_keeps:
  assumes "backoff w = Inr w'"
  shows "consec w' = consec w" "av w' = av w" "thread w' = thread w"
  using assms
  by (auto simp: backoff_def emit_def Let_def split: if_splits option.splits)

lemma nextStage_writes:
  assumes "nextStage w = Inr w'"
  shows "consec w' = consec w" "av w' = av w" "thread w' = thread w" "anc_z w' = anc_z w"
    "\<exists>v f. py_index (voltages (av w')) (stage w') = Inr v
         \<and> py_index (frequencies (av w')) (stage w') = Inr f
         \<and> effects w' = effects w @ [AncWriteVolt (anc_z w') v, AncWriteFreq (anc_z w') f]"
  using assms
  by (auto simp: nextStage_def emit_def Let_def split: if_splits sum.splits)

lemma drop_last_three:
  assumes "drop (length es - 2) es = [a, b]"
  shows "drop (length (es @ [c]) - 3) (es @ [c]) = [a, b, c]"
proof -
  have "length (drop (length es - 2) es) = 2" using assms by simp
  then have "2 \<le> length es" by simp
  then have "length (es @ [c]) - 3 = length es - 2" by simp
  then show ?thesis using assms \<open>2 \<le> length es\<close> by simp
qed

lemma run_step_prep_ok:
  assumes "run_step w = Inr w'" "prep_ok w"
  shows "prep_ok w'"
proof (cases "thread w")
  case None
  then show ?thesis using assms by (simp add: run_step_def)
next
  case (Some pc)
  show ?thesis
  proof (cases pc)
    case AtBackoff
    then obtain w1 where b: "backoff w = Inr w1" and w': "w' = w1\<lparr>thread := Some AtNextStage\<rparr>"
      using assms(1) Some by (auto simp: run_step_def split: sum.splits)
    have "consec w = consec_req (av w)" using assms(2) Some AtBackoff by (simp add: prep_ok_def)
    then show ?thesis using backoff_keeps [OF b] w' by (simp add: prep_ok_def)
  next
    case AtNextStage
    then obtain w1 where b: "nextStage w = Inr w1" and w': "w' = w1\<lparr>thread := Some AtSleep\<rparr>"
      using assms(1) Some by (auto simp: run_step_def split: sum.splits)
    have c: "consec w = consec_req (av w)"
      using assms(2) Some AtNextStage by (simp add: prep_ok_def)
    from nextStage_writes(5) [OF b] obtain v f where
      v: "py_index (voltages (av w1)) (stage w1) = Inr v"
      and f: "py_index (frequencies (av w1)) (stage w1) = Inr f"
      and e: "effects w1 = effects w @ [AncWriteVolt (anc_z w1) v, AncWriteFreq (anc_z w1) f]"
      by blast
    have "settings_just_written w' []"
      using v f e w' by (simp add: settings_just_written_def last_effects_def)
    then show ?thesis using nextStage_writes(1,2) [OF b] c w' by (simp add: prep_ok_def)
  next
    case AtSleep
    then have w': "w' = emit (Sleep 5) (w\<lparr>doc := Doc ''Stabilisation sleep...'',
                                 thread := Some AtConsecReset\<rparr>)"
      using assms(1) Some by (simp add: run_step_def)
    have c: "consec w = consec_req (av w)" and s: "settings_just_written w []"
      using assms(2) Some AtSleep by (simp_all add: prep_ok_def)
    from s obtain v f where
      v: "py_index (voltages (av w)) (stage w) = Inr v"
      and f: "py_index (frequencies (av w)) (stage w) = Inr f"
      and e: "drop (length (effects w) - 2) (effects w)
                = [AncWriteVolt (anc_z w) v, AncWriteFreq (anc_z w) f]"
      by (auto simp: settings_just_written_def last_effects_def split: sum.splits)
    have "settings_just_written w' [Sleep 5]"
      using v f drop_last_three [OF e, of "Sleep 5"] w'
      by (simp add: settings_just_written_def last_effects_def emit_def)
    then show ?thesis using c w' by (simp add: prep_ok_def emit_def)
  next
    case AtConsecReset
    then show ?thesis using assms(1) Some by (auto simp: run_step_def prep_ok_def)
  next
    case AtWriteSteps
    then show ?thesis
      using assms(1) Some by (auto simp: run_step_def prep_ok_def emit_def split: if_splits)
  qed
qed

lemma endApproachStage_prep_ok:
  assumes "endApproachStage w b = Inr w'" "consec w = consec_req (av w) \<or> b"
  shows "prep_ok w'"
  using assms
  by (auto simp: endApproachStage_def emit_def Let_def prep_ok_def split: if_splits)

lemma checkThreshold_prep_ok:
  assumes "checkThreshold w = Inr w'" "prep_ok w" "consec w \<noteq> consec_req (av w)"
  shows "prep_ok w'"
proof -
  have np: "\<not> preparing w" using assms(2,3) prep_ok_preparing by blast
  from assms(1) obtain d thr where d: "py_index (der_arr w) (- 1) = Inr d"
    and thr: "py_index (threshold (av w)) (stage w) = Inr thr"
    by (auto simp: checkThreshold_def split: sum.splits)
  show ?thesis
  proof (cases "d < thr \<and> consec w + 1 = consec_req (av w)")
    case True
    then have "endApproachStage (w\<lparr>consec := consec w + 1\<rparr>) False = Inr w'"
      using assms(1) d thr by (simp add: checkThreshold_def Let_def)
    then show ?thesis using True by (intro endApproachStage_prep_ok) auto
  next
    case False
    then have "w' = w\<lparr>consec := consec w + 1\<rparr> \<or> w' = w\<lparr>consec := 0\<rparr>"
      using assms(1) d thr by (auto simp: checkThreshold_def Let_def split: if_splits)
    then have "\<not> preparing w'" using np by (auto simp: preparing_def)
    then show ?thesis by (rule prep_ok_not_preparing)
  qed
qed

lemma dataLoop_while_preparing:
  assumes "dataLoop w data_n = Inr w'" "consec w = consec_req (av w)"
  shows "acquireData w data_n = Inr w'"
proof -
  from assms(1) obtain w1 where acq: "acquireData w data_n = Inr w1"
    by (auto simp: dataLoop_def split: sum.splits)
  have "consec w1 = consec_req (av w1)" using acquireData_keeps [OF acq] assms(2) by simp
  then show ?thesis using assms(1) acq by (simp add: dataLoop_def)
qed

lemma dataLoop_prep_ok:
  assumes "dataLoop w data_n = Inr w'" "prep_ok w"
  shows "prep_ok w'"
proof -
  from assms(1) obtain w1 where acq: "acquireData w data_n = Inr w1"
    by (auto simp: dataLoop_def split: sum.splits)
  note k = acquireData_keeps [OF acq]
  have p1: "prep_ok w1" using prep_ok_cong [of w1 w] k assms(2) by simp
  show ?thesis
  proof (cases "consec w1 = consec_req (av w1)")
    case True
    then show ?thesis using assms(1) acq p1 by (simp add: dataLoop_def)
  next
    case False
    then have "checkThreshold w1 = Inr w'" using assms(1) acq by (simp add: dataLoop_def)
    then show ?thesis using p1 False by (rule checkThreshold_prep_ok)
  qed
qed

lemma exec_event_prep_ok:
  assumes "exec_event w ev = Inr w'" "prep_ok w"
  shows "prep_ok w'"
proof (cases ev)
  case (DataTimeout data_n)
  then show ?thesis
    using assms by (auto simp: exec_event_def split: if_splits intro: dataLoop_prep_ok)
next
  case ThreadStep
  then show ?thesis using assms by (auto simp: exec_event_def intro: run_step_prep_ok)
next
  case StopButton
  then show ?thesis using assms by (auto simp: exec_event_def intro: endApproachStage_prep_ok)
qed

lemma exec_events_prep_ok:
  "exec_events w evs = Inr w' \<Longrightarrow> prep_ok w \<Longrightarrow> prep_ok w'"
proof (induction evs arbitrary: w)
  case Nil
  then show ?case by simp
next
  case (Cons ev evs)
  from Cons.prems(1) obtain w1 where 1: "exec_event w ev = Inr w1"
    and 2: "exec_events w1 evs = Inr w'"
    by (auto split: sum.splits)
  show ?case by (rule Cons.IH [OF 2 exec_event_prep_ok [OF 1 Cons.prems(2)]])
qed

lemma startApproach_init:
  assumes "startApproach w0 g = Inr w" "thread w0 = None"
  shows "consec w = consec_req (av w)" "thread w = Some AtBackoff" "stage w = - 1"
    "av w = snapshot g" "timer_active w" "read_task w = TaskOpen"
  using assms
  by (auto simp: startApproach_def emit_def Let_def split: if_splits)

text \<open>
  Claim C9. \<open>__startApproach\<close> sets the counter to \<open>consec_req\<close>. In every state reached
  from there by timer ticks, pieces of the approach thread and presses of the stop
  button: while the thread has not yet executed \<open>self.win.consec = 0\<close> (approach
  preparation, backoff, change of settings, stabilisation sleep) the counter still equals
  \<open>consec_req\<close>, and a timer tick there only stores the new samples: it ends no stage and
  leaves counter and thread alone. When the thread stands right before the reset, the
  last effects are the writing of the stage's voltage and frequency and the sleep of 5
  seconds.
\<close>

theorem no_completion_while_preparing:
  assumes "thread w0 = None" "startApproach w0 g = Inr w" "exec_events w evs = Inr w'"
  shows "consec w = consec_req (av w)
         \<and> (preparing w' \<longrightarrow>
              consec w' = consec_req (av w')
              \<and> (\<forall>data_n w''. dataLoop w' data_n = Inr w'' \<longrightarrow>
                    \<not> stage_end_fired w' w'' \<and> effects w'' = effects w'
                    \<and> consec w'' = consec_req (av w'') \<and> thread w'' = thread w'))
         \<and> (thread w' = Some AtConsecReset \<longrightarrow> settings_just_written w' [Sleep 5])"
proof -
  note i = startApproach_init [OF assms(2,1)]
  have "prep_ok w" using i(1,2) by (simp add: prep_ok_def)
  then have ok: "prep_ok w'" by (rule exec_events_prep_ok [OF assms(3)])
  have a: "consec w' = consec_req (av w')" if "preparing w'"
    using ok that by (rule prep_ok_preparing)
  have b: "\<not> stage_end_fired w' w'' \<and> effects w'' = effects w'
            \<and> consec w'' = consec_req (av w'') \<and> thread w'' = thread w'"
    if "preparing w'" "dataLoop w' data_n = Inr w''" for data_n w''
  proof -
    have "acquireData w' data_n = Inr w''"
      using that(2) a [OF that(1)] by (rule dataLoop_while_preparing)
    from acquireData_keeps [OF this] a [OF that(1)] show ?thesis
      by (simp add: stage_end_fired_def)
  qed
  have c: "settings_just_written w' [Sleep 5]" if "thread w' = Some AtConsecReset"
    using ok that by (simp add: prep_ok_def)
  show ?thesis using i(1) a b c by blast
qed

theorem no_completion_while_preparing_witness:
  "thread ex_idle = None
   \<and> startApproach ex_idle ex_widgets = Inr ex_started
   \<and> exec_events ex_started [ThreadStep, DataTimeout [5, 3]] = Inr ex_preparing
   \<and> preparing ex_preparing
   \<and> consec ex_started = consec_req (av ex_started)
   \<and> consec ex_preparing = consec_req (av ex_preparing)"
proof -
  have n: "thread ex_idle = None" by simp
  have p: "preparing ex_preparing" by (simp add: preparing_def)
  from no_completion_while_preparing [OF n ex_startApproach ex_exec_events] show ?thesis
    using n p ex_startApproach ex_exec_events by blast
qed

lemma exec_event_stopped:
  assumes "exec_event w ev = Inr w'" "thread w = None" "\<not> timer_active w"
  shows "thread w' = None \<and> \<not> timer_active w' \<and> stage w' = stage w \<and> anc_z w' = anc_z w
         \<and> set (effects w') \<subseteq> set (effects w)
               \<union> {ThreadTerminate, AncStopAxis (anc_z w), DataTimerStop, ReadTaskClose}
         \<and> (ev \<noteq> StopButton \<longrightarrow> w' = w)"
proof (cases ev)
  case (DataTimeout data_n)
  then show ?thesis using assms by (auto simp: exec_event_def)
next
  case ThreadStep
  then show ?thesis using assms by (auto simp: exec_event_def run_step_def)
next
  case StopButton
  then have e: "endApproachStage w True = Inr w'" using assms(1) by (simp add: exec_event_def)
  have ax: "is_axis (anc_z w)" by (rule endApproachStage_keeps(7) [OF e])
  show ?thesis
    using e StopButton unfolding endApproachStage_forced [OF ax] by auto
qed

lemma exec_events_stopped:
  "exec_events w evs = Inr w' \<Longrightarrow> thread w = None \<Longrightarrow> \<not> timer_active w \<Longrightarrow>
     thread w' = None \<and> \<not> timer_active w' \<and> stage w' = stage w \<and> anc_z w' = anc_z w
     \<and> set (effects w') \<subseteq> set (effects w)
           \<union> {ThreadTerminate, AncStopAxis (anc_z w), DataTimerStop, ReadTaskClose}
     \<and> (StopButton \<notin> set evs \<longrightarrow> w' = w)"
proof (induction evs arbitrary: w)
  case Nil
  then show ?case by auto
next
  case (Cons ev evs)
  from Cons.prems(1) obtain w1 where 1: "exec_event w ev = Inr w1"
    and 2: "exec_events w1 evs = Inr w'"
    by (auto split: sum.splits)
  note s1 = exec_event_stopped [OF 1 Cons.prems(2,3)]
  have s2: "thread w' = None \<and> \<not> timer_active w' \<and> stage w' = stage w1 \<and> anc_z w' = anc_z w1
     \<and> set (effects w') \<subseteq> set (effects w1)
           \<union> {ThreadTerminate, AncStopAxis (anc_z w1), DataTimerStop, ReadTaskClose}
     \<and> (StopButton \<notin> set evs \<longrightarrow> w' = w1)"
  proof -
    from s1 have t1: "thread w1 = None" and t2: "\<not> timer_active w1" by simp_all
    show ?thesis by (rule Cons.IH [OF 2 t1 t2])
  qed
  show ?case using s1 s2 by auto
qed

text \<open>
  Claim C2. In stage 1 of a two-stage approach, \<open>endApproachStage(True)\<close> terminates the
  thread, stops the axis as its first command to the stepper, stops the data timer,
  closes the read task and shows \<open>Approach stopped\<close>. Whatever timer, thread or stop
  button events follow, the stage index stays at stage 1, the thread stays dead and the
  timer stopped, and nothing but further stop commands reaches the outside: no backoff
  step and no setting of stage 2. Without \<open>end_all\<close> the same call would have started
  the thread anew for the backoff; and a normal end of the last stage shows
  \<open>Approach complete\<close>.
\<close>

theorem forced_stop_in_first_stage:
  assumes "stage w = 0" "approach_stages (av w) = 2" "is_axis (anc_z w)"
    "read_task w = TaskOpen"
  shows "\<exists>s. endApproachStage w True = Inr s
           \<and> effects s = effects w
                @ [ThreadTerminate, AncStopAxis (anc_z w), DataTimerStop, ReadTaskClose]
           \<and> thread s = None \<and> \<not> timer_active s \<and> read_task s = TaskClosed
           \<and> doc s = Doc ''Approach stopped'' \<and> stage s = 0
           \<and> (\<forall>evs s'. exec_events s evs = Inr s' \<longrightarrow>
                 stage s' = 0 \<and> thread s' = None \<and> \<not> timer_active s'
                 \<and> set (effects s') \<subseteq> set (effects s)
                       \<union> {ThreadTerminate, AncStopAxis (anc_z w), DataTimerStop, ReadTaskClose}
                 \<and> (StopButton \<notin> set evs \<longrightarrow> s' = s))
           \<and> (\<exists>u. endApproachStage w False = Inr u \<and> thread u = Some AtBackoff
                 \<and> timer_active u = timer_active w)
           \<and> (\<forall>c c'. endApproachStage c False = Inr c' \<and> thread c' = None
                 \<longrightarrow> doc c' = Doc ''Approach complete'')"
proof -
  define s where "s = w\<lparr>thread := None, timer_active := False,
            read_task := (if read_task w = TaskOpen then TaskClosed else read_task w),
            doc := Doc ''Approach stopped'', startButton := True,
            effects := effects w @ [ThreadTerminate, AncStopAxis (anc_z w), DataTimerStop]
                         @ (if read_task w = TaskOpen then [ReadTaskClose] else [])\<rparr>"
  have e: "endApproachStage w True = Inr s"
    unfolding s_def by (rule endApproachStage_forced [OF assms(3)])
  have f: "effects s = effects w
                @ [ThreadTerminate, AncStopAxis (anc_z w), DataTimerStop, ReadTaskClose]"
    "thread s = None" "\<not> timer_active s" "read_task s = TaskClosed"
    "doc s = Doc ''Approach stopped''" "stage s = 0" "anc_z s = anc_z w"
    using assms by (simp_all add: s_def)
  have later: "stage s' = 0 \<and> thread s' = None \<and> \<not> timer_active s'
                 \<and> set (effects s') \<subseteq> set (effects s)
                       \<union> {ThreadTerminate, AncStopAxis (anc_z w), DataTimerStop, ReadTaskClose}
                 \<and> (StopButton \<notin> set evs \<longrightarrow> s' = s)"
    if "exec_events s evs = Inr s'" for evs s'
    using exec_events_stopped [OF that f(2,3)] f(6,7) by simp
  have normal: "\<exists>u. endApproachStage w False = Inr u \<and> thread u = Some AtBackoff
                 \<and> timer_active u = timer_active w"
    using assms by (simp add: endApproachStage_def emit_def Let_def)
  have complete: "doc c' = Doc ''Approach complete''"
    if "endApproachStage c False = Inr c' \<and> thread c' = None" for c c'
    using that by (auto simp: endApproachStage_def emit_def Let_def split: if_splits)
  show ?thesis using e f later normal complete by blast
qed

theorem forced_stop_in_first_stage_witness:
  "stage ex_running = 0 \<and> approach_stages (av ex_running) = 2 \<and> is_axis (anc_z ex_running)
   \<and> read_task ex_running = TaskOpen
   \<and> (\<exists>s. endApproachStage ex_running True = Inr s
           \<and> effects s = effects ex_running
                @ [ThreadTerminate, AncStopAxis (anc_z ex_running), DataTimerStop, ReadTaskClose]
           \<and> thread s = None \<and> \<not> timer_active s \<and> read_task s = TaskClosed
           \<and> doc s = Doc ''Approach stopped'' \<and> stage s = 0)"
proof -
  have h: "stage ex_running = 0" "approach_stages (av ex_running) = 2"
    "is_axis (anc_z ex_running)" "read_task ex_running = TaskOpen"
    by (simp_all add: is_axis_def)
  from forced_stop_in_first_stage [OF h] show ?thesis
    using h by blast
qed

section \<open>The line scan thread\<close>

lemma progressI_done: "raised w2 = None \<Longrightarrow> calls w2 = calls w1 @ evs \<Longrightarrow> progress w1 w2 evs"
  by (simp add: progress_def)

lemma progressI_raised:
  "raised w2 \<noteq> None \<Longrightarrow> m < length evs \<Longrightarrow> calls w2 = calls w1 @ take m evs
     \<Longrightarrow> progress w1 w2 evs"
  by (auto simp: progress_def min_def)

lemma progressE:
  assumes "progress w1 w2 evs"
  obtains (finished) "raised w2 = None" "calls w2 = calls w1 @ evs"
  | (raised) m where "raised w2 \<noteq> None" "m < length evs" "calls w2 = calls w1 @ take m evs"
proof (cases "raised w2 = None")
  case True
  have a: "calls w2 = calls w1 @ take (length (calls w2) - length (calls w1)) evs
      \<and> (if raised w2 = None then length (calls w2) - length (calls w1) = length evs
          else length (calls w2) - length (calls w1) < length evs)"
    using assms unfolding progress_def Let_def .
  note c = a [THEN conjunct1]
  have m: "length (calls w2) - length (calls w1) = length evs"
    using a [THEN conjunct2] True by (metis (full_types))
  have "calls w2 = calls w1 @ evs" by (subst c) (simp add: m)
  then show ?thesis using True finished by blast
next
  case False
  then show ?thesis
    using assms raised [of "length (calls w2) - length (calls w1)"]
    by (simp add: progress_def Let_def)
qed

lemma progress_refl: "raised w = None \<Longrightarrow> progress w w []"
  by (simp add: progress_def)

lemma progress_hw:
  assumes "progress w1 w2 evs"
  shows "progress w1 (hw faults ev w2) (evs @ [ev])"
  using assms
proof (cases rule: progressE)
  case finished
  show ?thesis
  proof (cases "faults (length (calls w2))")
    case True
    then have "hw faults ev w2 = w2\<lparr>raised := Some DeviceError\<rparr>"
      using finished by (simp add: hw_def)
    then show ?thesis
      using finished by (intro progressI_raised [where m = "length evs"]) simp_all
  next
    case False
    then have "hw faults ev w2 = w2\<lparr>calls := calls w2 @ [ev]\<rparr>"
      using finished by (simp add: hw_def)
    then show ?thesis using finished by (intro progressI_done) simp_all
  qed
next
  case (raised m)
  then have "hw faults ev w2 = w2" by (simp add: hw_def)
  then show ?thesis using raised by (intro progressI_raised [where m = m]) simp_all
qed

lemma progress_raise_in:
  assumes "progress w1 w2 evs" "tl_evs \<noteq> []"
  shows "progress w1 (raise_in e w2) (evs @ tl_evs)"
  using assms(1)
proof (cases rule: progressE)
  case finished
  then have "raise_in e w2 = w2\<lparr>raised := Some e\<rparr>" by (simp add: raise_in_def)
  then show ?thesis
    using finished assms(2) by (intro progressI_raised [where m = "length evs"]) simp_all
next
  case (raised m)
  then have "raise_in e w2 = w2" by (simp add: raise_in_def)
  then show ?thesis using raised by (intro progressI_raised [where m = m]) simp_all
qed

lemma progress_cong:
  "progress w1 w2 evs \<Longrightarrow> calls w3 = calls w2 \<Longrightarrow> raised w3 = raised w2 \<Longrightarrow> progress w1 w3 evs"
  by (simp add: progress_def Let_def)

lemma hw_static:
  "meas_list (hw faults ev w) = meas_list w" "DEVname (hw faults ev w) = DEVname w"
  "sv (hw faults ev w) = sv w"
  by (simp_all add: hw_def)

lemma start_trigger_source_hw:
  "start_trigger_source (hw faults ev w) = start_trigger_source w"
  by (simp add: start_trigger_source_def hw_static)

lemma run_setup_progress:
  assumes "raised w1 = None"
  shows "\<exists>src x. progress w1 (run_setup faults w1)
         [CfgSampClkFinite ''write'' (data_rate (sv w1))
            (int (length (linx (sv w1))) * int (length (liny (sv w1))) + 1),
          CfgDigEdgeStartTrig ''write'' src, MakeMultiChannelWriter ''write'',
          WriteManySample x, TaskStart ''write'', TaskStart ''read'']
      \<and> (start_trigger_source w1 = Inr src \<or> raised (run_setup faults w1) \<noteq> None)"
proof -
  let ?v = "sv w1"
  let ?e2 = "CfgSampClkFinite ''write'' (data_rate ?v)
               (int (length (linx ?v)) * int (length (liny ?v)) + 1)"
  define w2 where "w2 = hw faults ?e2 w1"
  define w3 where "w3 = (case start_trigger_source w2 of
                  Inl e \<Rightarrow> raise_in e w2
                | Inr src \<Rightarrow> hw faults (CfgDigEdgeStartTrig ''write'' src) w2)"
  define w4 where "w4 = hw faults (MakeMultiChannelWriter ''write'') w3"
  define w5 where "w5 = (case generateInput (linx ?v) (liny ?v) 0 of
                  Inl e \<Rightarrow> raise_in e w4
                | Inr a \<Rightarrow>
                   (case generateInput (linx ?v) (liny ?v) 1 of
                      Inl e \<Rightarrow> raise_in e w4
                    | Inr b \<Rightarrow> hw faults (WriteManySample (map2 (@) a b)) w4))"
  define w6 where "w6 = hw faults (TaskStart ''write'') w5"
  define w7 where "w7 = hw faults (TaskStart ''read'') w6"
  have rs: "run_setup faults w1 = (if raised w7 \<noteq> None then w7
         else w7\<lparr>wait_timer_active := True, line_i := 2, write_timer_active := True\<rparr>)"
    unfolding w7_def w6_def w5_def w4_def w3_def w2_def run_setup_def Let_def
    by (rule refl)
  have p2: "progress w1 w2 [?e2]"
    unfolding w2_def
    using progress_hw [OF progress_refl [OF assms], where faults = faults and ev = ?e2] by simp
  have src2: "start_trigger_source w2 = start_trigger_source w1"
    by (simp add: w2_def start_trigger_source_hw)
  obtain src where p3: "progress w1 w3 [?e2, CfgDigEdgeStartTrig ''write'' src]"
    and r3: "start_trigger_source w1 = Inr src \<or> raised w3 \<noteq> None"
  proof (cases "start_trigger_source w1")
    case (Inl e)
    have "w3 = raise_in e w2" by (simp add: w3_def src2 Inl)
    moreover have "raised (raise_in e w2) \<noteq> None" by (simp add: raise_in_def)
    ultimately show ?thesis
      using progress_raise_in [OF p2, where e = e and tl_evs = "[CfgDigEdgeStartTrig ''write'' []]"]
      by (intro that [of "[]"]) simp_all
  next
    case (Inr s)
    have "w3 = hw faults (CfgDigEdgeStartTrig ''write'' s) w2" by (simp add: w3_def src2 Inr)
    then show ?thesis
      using progress_hw [OF p2, where faults = faults and ev = "CfgDigEdgeStartTrig ''write'' s"] Inr
      by (intro that [of s]) simp_all
  qed
  let ?e3 = "CfgDigEdgeStartTrig ''write'' src"
  let ?e4 = "MakeMultiChannelWriter ''write''"
  have p4: "progress w1 w4 [?e2, ?e3, ?e4]"
    unfolding w4_def using progress_hw [OF p3, where faults = faults and ev = ?e4] by simp
  obtain x where p5: "progress w1 w5 [?e2, ?e3, ?e4, WriteManySample x]"
  proof (cases "generateInput (linx ?v) (liny ?v) 0")
    case (Inl e)
    then have "w5 = raise_in e w4" by (simp add: w5_def)
    then show ?thesis
      using progress_raise_in [OF p4, where e = e and tl_evs = "[WriteManySample []]"]
      by (intro that [of "[]"]) simp
  next
    case a: (Inr a)
    show ?thesis
    proof (cases "generateInput (linx ?v) (liny ?v) 1")
      case (Inl e)
      then have "w5 = raise_in e w4" by (simp add: w5_def a)
      then show ?thesis
        using progress_raise_in [OF p4, where e = e and tl_evs = "[WriteManySample []]"]
        by (intro that [of "[]"]) simp
    next
      case (Inr b)
      then have "w5 = hw faults (WriteManySample (map2 (@) a b)) w4" by (simp add: w5_def a)
      then show ?thesis
        using progress_hw [OF p4, where faults = faults and ev = "WriteManySample (map2 (@) a b)"]
        by (intro that [of "map2 (@) a b"]) simp
    qed
  qed
  let ?e5 = "WriteManySample x"
  have p6: "progress w1 w6 [?e2, ?e3, ?e4, ?e5, TaskStart ''write'']"
    unfolding w6_def using progress_hw [OF p5, where faults = faults and ev = "TaskStart ''write''"] by simp
  have p7: "progress w1 w7 [?e2, ?e3, ?e4, ?e5, TaskStart ''write'', TaskStart ''read'']"
    unfolding w7_def using progress_hw [OF p6, where faults = faults and ev = "TaskStart ''read''"] by simp
  have "progress w1 (run_setup faults w1)
          [?e2, ?e3, ?e4, ?e5, TaskStart ''write'', TaskStart ''read'']"
    by (rule progress_cong [OF p7]) (simp_all add: rs)
  moreover have "start_trigger_source w1 = Inr src \<or> raised (run_setup faults w1) \<noteq> None"
  proof (cases "raised w3 = None")
    case True
    then show ?thesis using r3 by simp
  next
    case False
    have "raised w4 \<noteq> None" unfolding w4_def using False by (simp add: hw_def)
    then have "raised w5 \<noteq> None"
      unfolding w5_def by (simp add: hw_def raise_in_def split: sum.splits)
    then have "raised w7 \<noteq> None" unfolding w7_def w6_def by (simp add: hw_def)
    then show ?thesis by (simp add: rs)
  qed
  ultimately show ?thesis by blast
qed

lemma hw_appends:
  assumes "\<not> is_start ev"
  shows "\<exists>x. calls (hw faults ev u) = calls u @ x \<and> list_all (\<lambda>e. \<not> is_start e) x"
  using assms by (simp add: hw_def)

lemma write_cb_appends:
  "\<exists>x. calls (write_cb faults w) = calls w @ x \<and> list_all (\<lambda>e. \<not> is_start e) x"
proof (cases "line_i w = int (length (liny (sv w)))")
  case True
  have "\<not> is_start (WriteSample [0, 0])" by (simp add: is_start_def)
  from hw_appends [OF this, of faults "w\<lparr>write_timer_active := False\<rparr>"]
  show ?thesis using True by (simp add: write_cb_def)
next
  case False
  show ?thesis
  proof (cases "generateInput (linx (sv w)) (liny (sv w)) (line_i w)")
    case (Inl e)
    then have "calls (write_cb faults w) = calls w"
      using False by (simp add: write_cb_def raise_in_def)
    then show ?thesis by simp
  next
    case (Inr a)
    have "\<not> is_start (WriteManySample a)" by (simp add: is_start_def)
    from hw_appends [OF this, of faults w] obtain x where
      x: "calls (hw faults (WriteManySample a) w) = calls w @ x" "list_all (\<lambda>e. \<not> is_start e) x"
      by blast
    have "calls (write_cb faults w) = calls (hw faults (WriteManySample a) w)"
      using False Inr by (simp add: write_cb_def Let_def)
    then show ?thesis using x by simp
  qed
qed

lemma event_loop_appends:
  "\<exists>x. calls (event_loop faults es w) = calls w @ x \<and> list_all (\<lambda>e. \<not> is_start e) x"
proof (induction faults es w rule: event_loop.induct)
  case (1 faults w)
  then show ?case by simp
next
  case (2 faults es w)
  show ?case
  proof (cases "raised w = None")
    case False
    then show ?thesis by simp
  next
    case r: True
    show ?thesis
    proof (cases "write_timer_active w")
      case True
      from 2(1) r True obtain x where
        x: "calls (event_loop faults es (write_cb faults w)) = calls (write_cb faults w) @ x"
          "list_all (\<lambda>e. \<not> is_start e) x"
        by auto
      obtain y where y: "calls (write_cb faults w) = calls w @ y" "list_all (\<lambda>e. \<not> is_start e) y"
        using write_cb_appends by blast
      show ?thesis using r True x y by (intro exI [of _ "y @ x"]) simp
    next
      case False
      then show ?thesis using 2(2) r by simp
    qed
  qed
next
  case (3 faults fin es w)
  let ?w1 = "hw faults (IsTaskDone ''write'') w"
  have "\<not> is_start (IsTaskDone ''write'')" by (simp add: is_start_def)
  from hw_appends [OF this, of faults w] obtain y where
    y: "calls ?w1 = calls w @ y" "list_all (\<lambda>e. \<not> is_start e) y"
    by blast
  show ?case
  proof (cases "raised w = None \<and> raised ?w1 = None \<and> \<not> fin")
    case True
    then obtain x where x: "calls (event_loop faults es ?w1) = calls ?w1 @ x"
        "list_all (\<lambda>e. \<not> is_start e) x"
      using 3 by auto
    show ?thesis using True x y by (intro exI [of _ "y @ x"]) (simp add: Let_def)
  next
    case False
    then show ?thesis using y by (auto simp: Let_def)
  qed
qed


lemma run_setup_no_fault:
  assumes "\<forall>n. \<not> faults n" "raised w1 = None" "meas_list w1 \<noteq> []"
    "2 \<le> length (liny (sv w1))"
  shows "raised (run_setup faults w1) = None"
proof -
  have "liny (sv w1) \<noteq> []" using assms(4) by auto
  then show ?thesis
    using assms
    by (simp add: run_setup_def hw_def raise_in_def start_trigger_source_def generateInput_def
          py_index_def Let_def)
qed

lemma take_setup_no_read_start:
  assumes "m < 6" "\<not> is_start e2" "\<not> is_start e3" "\<not> is_start e4" "\<not> is_start e5"
  shows "TaskStart ''read'' \<notin> set (take m [e2, e3, e4, e5, TaskStart ''write'', TaskStart ''read''])"
proof -
  have "m = 0 \<or> m = 1 \<or> m = 2 \<or> m = 3 \<or> m = 4 \<or> m = 5" using assms(1) by arith
  then show ?thesis
    using assms(2-5) by (auto simp: is_start_def)
qed

text \<open>
  Claim C3. Whatever driver calls fail and whatever timer events arrive, the calls a
  run of \<open>ScanLineThread.run\<close> adds contain a start of the read task only in this
  shape: the digital-edge start trigger of the write task has been configured with the
  read task's device terminal \<open>/<device>/ai/StartTrigger\<close>, later the write task is
  started, the start of the read task follows it directly, and no other task start occurs
  in the run. Without failures, on a window with channels and at least two rows, the
  read task is started.
\<close>

theorem write_task_started_before_read_task:
  "\<exists>new. calls (run faults es w) = calls w @ new
     \<and> (TaskStart ''read'' \<in> set new \<longrightarrow>
          (\<exists>p1 p2 post.
              new = p1 @ CfgDigEdgeStartTrig ''write'' (''/'' @ DEVname w @ ''/ai/StartTrigger'')
                       # p2 @ TaskStart ''write'' # TaskStart ''read'' # post
              \<and> list_all (\<lambda>e. \<not> is_start e) (p1 @ p2 @ post)))
     \<and> ((\<forall>n. \<not> faults n) \<and> raised w = None \<and> meas_list w \<noteq> []
           \<and> 2 \<le> length (liny (sv w)) \<longrightarrow> TaskStart ''read'' \<in> set new)"
proof -
  define w0 where "w0 = snd (dumpData w 0)"
  let ?mk = "MakeWriteTask ''write'' (write_list w0) (lowerV (sv w0)) (upperV (sv w0))"
  define w1 where "w1 = hw faults ?mk w0"
  have w0: "calls w0 = calls w" "raised w0 = raised w" "sv w0 = sv w"
    "meas_list w0 = meas_list w" "DEVname w0 = DEVname w"
    by (simp_all add: w0_def dumpData_def)
  have rn: "run faults es w =
     (if raised w1 \<noteq> None then w1
      else (let w2 = run_setup faults w1;
                w3 = (if raised w2 \<noteq> None then w2 else event_loop faults es w2)
            in w3\<lparr>calls := calls w3 @ [TaskClose ''write'']\<rparr>))"
    unfolding run_def w1_def w0_def Let_def by (rule refl)
  show ?thesis
  proof (cases "raised w1 = None")
    case False
    then have c: "calls w1 = calls w" using w0 by (auto simp: w1_def hw_def split: if_splits)
    have "\<not> ((\<forall>n. \<not> faults n) \<and> raised w = None)"
      using False w0 by (auto simp: w1_def hw_def split: if_splits)
    moreover have "calls (run faults es w) = calls w @ []" using False c by (simp add: rn)
    ultimately show ?thesis by (intro exI [of _ "[]"]) auto
  next
    case True
    then have c1: "calls w1 = calls w @ [?mk]" and s1: "sv w1 = sv w"
      "meas_list w1 = meas_list w" "DEVname w1 = DEVname w"
      using w0 by (auto simp: w1_def hw_def split: if_splits)
    define w2 where "w2 = run_setup faults w1"
    define w3 where "w3 = (if raised w2 \<noteq> None then w2 else event_loop faults es w2)"
    have rn': "run faults es w = w3\<lparr>calls := calls w3 @ [TaskClose ''write'']\<rparr>"
      using True by (simp add: rn w2_def w3_def Let_def)
    let ?e2 = "CfgSampClkFinite ''write'' (data_rate (sv w1))
            (int (length (linx (sv w1))) * int (length (liny (sv w1))) + 1)"
    from run_setup_progress [OF True, of faults] obtain src x where
      p: "progress w1 w2 [?e2, CfgDigEdgeStartTrig ''write'' src, MakeMultiChannelWriter ''write'',
            WriteManySample x, TaskStart ''write'', TaskStart ''read'']"
      and sr: "start_trigger_source w1 = Inr src \<or> raised w2 \<noteq> None"
      unfolding w2_def by blast
    from p show ?thesis
    proof (cases rule: progressE)
      case finished
      then have "start_trigger_source w1 = Inr src" using sr by simp
      then have src: "src = ''/'' @ DEVname w @ ''/ai/StartTrigger''"
        using s1 by (auto simp: start_trigger_source_def split: if_splits)
      obtain extra where ex: "calls (event_loop faults es w2) = calls w2 @ extra"
        "list_all (\<lambda>e. \<not> is_start e) extra"
        using event_loop_appends by blast
      have c3: "calls w3 = calls w @ [?mk, ?e2, CfgDigEdgeStartTrig ''write'' src,
            MakeMultiChannelWriter ''write'', WriteManySample x, TaskStart ''write'',
            TaskStart ''read''] @ extra"
        using finished ex c1 by (simp add: w3_def)
      let ?new = "[?mk, ?e2] @ CfgDigEdgeStartTrig ''write'' src
                    # [MakeMultiChannelWriter ''write'', WriteManySample x]
                    @ TaskStart ''write'' # TaskStart ''read'' # (extra @ [TaskClose ''write''])"
      have a: "calls (run faults es w) = calls w @ ?new" by (simp add: rn' c3)
      have b: "list_all (\<lambda>e. \<not> is_start e)
                 ([?mk, ?e2] @ [MakeMultiChannelWriter ''write'', WriteManySample x]
                    @ (extra @ [TaskClose ''write'']))"
        using ex(2) by (simp add: is_start_def)
      have d: "TaskStart ''read'' \<in> set ?new" by simp
      show ?thesis
        using a b d unfolding src by blast
    next
      case (raised m)
      then have c3: "calls w3 = calls w @ ?mk # take m [?e2, CfgDigEdgeStartTrig ''write'' src,
            MakeMultiChannelWriter ''write'', WriteManySample x, TaskStart ''write'',
            TaskStart ''read'']"
        using c1 by (simp add: w3_def)
      have no: "TaskStart ''read'' \<notin> set (take m [?e2, CfgDigEdgeStartTrig ''write'' src,
            MakeMultiChannelWriter ''write'', WriteManySample x, TaskStart ''write'',
            TaskStart ''read''])"
        using raised(2) by (intro take_setup_no_read_start) (simp_all add: is_start_def)
      have nf: "\<not> ((\<forall>n. \<not> faults n) \<and> raised w = None \<and> meas_list w \<noteq> []
           \<and> 2 \<le> length (liny (sv w)))"
      proof
        assume h: "(\<forall>n. \<not> faults n) \<and> raised w = None \<and> meas_list w \<noteq> []
           \<and> 2 \<le> length (liny (sv w))"
        then have "raised w2 = None"
          unfolding w2_def using True s1 by (intro run_setup_no_fault) simp_all
        then show False using raised(1) by simp
      qed
      let ?new = "?mk # take m [?e2, CfgDigEdgeStartTrig ''write'' src,
            MakeMultiChannelWriter ''write'', WriteManySample x, TaskStart ''write'',
            TaskStart ''read''] @ [TaskClose ''write'']"
      have a: "calls (run faults es w) = calls w @ ?new" by (simp add: rn' c3)
      have d: "TaskStart ''read'' \<notin> set ?new" using no by simp
      show ?thesis using a d nf by blast
    qed
  qed
qed


theorem write_task_started_before_read_task_witness:
  "\<exists>new. calls (run (\<lambda>n. False) [WriteTimeout, WaitTimeout True] ex_scan) = calls ex_scan @ new
     \<and> TaskStart ''read'' \<in> set new
     \<and> (\<exists>p1 p2 post.
           new = p1 @ CfgDigEdgeStartTrig ''write'' ''/Dev1/ai/StartTrigger''
                    # p2 @ TaskStart ''write'' # TaskStart ''read'' # post
           \<and> list_all (\<lambda>e. \<not> is_start e) (p1 @ p2 @ post))"
proof -
  have h: "(\<forall>n. \<not> (\<lambda>n. False) n) \<and> raised ex_scan = None \<and> meas_list ex_scan \<noteq> []
           \<and> 2 \<le> length (liny (sv ex_scan))"
    by simp
  from write_task_started_before_read_task [of "\<lambda>n. False" "[WriteTimeout, WaitTimeout True]" ex_scan]
  obtain new where
    n: "calls (run (\<lambda>n. False) [WriteTimeout, WaitTimeout True] ex_scan) = calls ex_scan @ new"
    and o: "TaskStart ''read'' \<in> set new \<longrightarrow>
          (\<exists>p1 p2 post.
              new = p1 @ CfgDigEdgeStartTrig ''write'' (''/'' @ DEVname ex_scan @ ''/ai/StartTrigger'')
                       # p2 @ TaskStart ''write'' # TaskStart ''read'' # post
              \<and> list_all (\<lambda>e. \<not> is_start e) (p1 @ p2 @ post))"
    and r: "(\<forall>n. \<not> (\<lambda>n. False) n) \<and> raised ex_scan = None \<and> meas_list ex_scan \<noteq> []
           \<and> 2 \<le> length (liny (sv ex_scan)) \<longrightarrow> TaskStart ''read'' \<in> set new"
    by blast
  have s: "TaskStart ''read'' \<in> set new" using r h by blast
  then have "\<exists>p1 p2 post.
              new = p1 @ CfgDigEdgeStartTrig ''write'' ''/Dev1/ai/StartTrigger''
                       # p2 @ TaskStart ''write'' # TaskStart ''read'' # post
              \<and> list_all (\<lambda>e. \<not> is_start e) (p1 @ p2 @ post)"
    using o by simp
  then show ?thesis using n s by blast
qed

end
